theory Spec2Isabelle
  imports Complex_Main
begin

section \<open>JavaScript numbers\<close>

text \<open>
  The scalars of \<^verbatim>\<open>detect.js\<close> (the two ratios, the clock readings, the FPS
  accumulators) are JavaScript Numbers: IEEE 754 binary64 values. A finite value is
  carried as the real number it denotes; the three non-finite values are constructors.
  Every arithmetic operation rounds its exact result to the nearest double, ties to even,
  and overflows to an infinity, as ECMAScript prescribes.
\<close>

datatype jsnum = Num real | PosInf | NegInf | NaN

definition rne :: "real \<Rightarrow> int" where
  \<comment> \<open>round to the nearest integer, a tie to the even one\<close>
  "rne x = (let f = \<lfloor>x\<rfloor>; d = x - of_int f
            in if d < 1 / 2 then f
               else if 1 / 2 < d then f + 1
               else if even f then f else f + 1)"

definition ilog :: "nat \<Rightarrow> real \<Rightarrow> int" where
  \<comment> \<open>the exponent \<open>e\<close> with \<open>b powi e \<le> x < b powi (e + 1)\<close>, for a positive \<open>x\<close>\<close>
  "ilog b x = (if x \<le> 0 \<or> b < 2 then 0 else \<lfloor>log (real b) x\<rfloor>)"

definition ulp_exp :: "real \<Rightarrow> int" where
  \<comment> \<open>exponent of the unit in the last place of a binary64 near \<open>x\<close>: 53 significant bits,
      and the fixed spacing \<open>2 powi -1074\<close> in the subnormal range\<close>
  "ulp_exp x = max (ilog 2 \<bar>x\<bar> - 52) (- 1074)"

definition fl64 :: "real \<Rightarrow> real" where
  "fl64 x = (if x = 0 then 0 else of_int (rne (x / 2 powi ulp_exp x)) * 2 powi ulp_exp x)"

definition round64 :: "real \<Rightarrow> jsnum" where
  "round64 x = (let r = fl64 x
                in if 2 ^ 1024 \<le> r then PosInf
                   else if r \<le> - (2 ^ 1024) then NegInf
                   else Num r)"

fun js_neg :: "jsnum \<Rightarrow> jsnum" where
  "js_neg (Num a) = Num (- a)"
| "js_neg PosInf = NegInf"
| "js_neg NegInf = PosInf"
| "js_neg NaN = NaN"

fun js_add :: "jsnum \<Rightarrow> jsnum \<Rightarrow> jsnum" where
  "js_add (Num a) (Num b) = round64 (a + b)"
| "js_add NaN _ = NaN"
| "js_add _ NaN = NaN"
| "js_add PosInf NegInf = NaN"
| "js_add NegInf PosInf = NaN"
| "js_add PosInf _ = PosInf"
| "js_add NegInf _ = NegInf"
| "js_add _ PosInf = PosInf"
| "js_add _ NegInf = NegInf"

definition js_sub :: "jsnum \<Rightarrow> jsnum \<Rightarrow> jsnum" where
  "js_sub a b = js_add a (js_neg b)"

fun js_sign :: "jsnum \<Rightarrow> real" where
  \<comment> \<open>sign of a value that is not NaN; a zero counts as positive (the program never
      produces a negative zero as a divisor)\<close>
  "js_sign (Num a) = (if a < 0 then - 1 else 1)"
| "js_sign PosInf = 1"
| "js_sign NegInf = - 1"
| "js_sign NaN = 1"

definition js_inf :: "real \<Rightarrow> jsnum" where
  "js_inf s = (if s < 0 then NegInf else PosInf)"

fun js_mul :: "jsnum \<Rightarrow> jsnum \<Rightarrow> jsnum" where
  "js_mul (Num a) (Num b) = round64 (a * b)"
| "js_mul NaN _ = NaN"
| "js_mul _ NaN = NaN"
| "js_mul (Num a) b = (if a = 0 then NaN else js_inf (js_sign (Num a) * js_sign b))"
| "js_mul a (Num b) = (if b = 0 then NaN else js_inf (js_sign a * js_sign (Num b)))"
| "js_mul a b = js_inf (js_sign a * js_sign b)"

fun js_div :: "jsnum \<Rightarrow> jsnum \<Rightarrow> jsnum" where
  "js_div (Num a) (Num b) =
     (if b = 0 then (if a = 0 then NaN else js_inf (js_sign (Num a)))
      else round64 (a / b))"
| "js_div NaN _ = NaN"
| "js_div _ NaN = NaN"
| "js_div (Num a) _ = Num 0"
| "js_div a (Num b) = js_inf (js_sign a * js_sign (Num b))"
| "js_div _ _ = NaN"

fun js_ge :: "jsnum \<Rightarrow> jsnum \<Rightarrow> bool" where
  \<comment> \<open>the comparison \<^verbatim>\<open>a >= b\<close>: false as soon as an operand is NaN\<close>
  "js_ge (Num a) (Num b) = (b \<le> a)"
| "js_ge NaN _ = False"
| "js_ge _ NaN = False"
| "js_ge PosInf _ = True"
| "js_ge _ NegInf = True"
| "js_ge _ _ = False"

definition js_le :: "jsnum \<Rightarrow> jsnum \<Rightarrow> bool" where
  "js_le a b = js_ge b a"

definition js_lt :: "jsnum \<Rightarrow> jsnum \<Rightarrow> bool" where
  \<comment> \<open>the comparison \<^verbatim>\<open>a < b\<close>\<close>
  "js_lt a b \<longleftrightarrow> js_ge b a \<and> \<not> js_ge a b"

definition js_max :: "jsnum \<Rightarrow> jsnum \<Rightarrow> jsnum" where
  "js_max a b = (if a = NaN \<or> b = NaN then NaN else if js_ge a b then a else b)"

definition js_min :: "jsnum \<Rightarrow> jsnum \<Rightarrow> jsnum" where
  "js_min a b = (if a = NaN \<or> b = NaN then NaN else if js_ge a b then b else a)"

subsection \<open>Single precision\<close>

text \<open>
  The tensors that the model returns hold IEEE 754 binary32 values: 24 significant bits,
  subnormals with the spacing \<open>2 powi -149\<close>, overflow from \<open>2 ^ 128\<close> on. The
  element-wise subtraction, addition and division of the library round their exact
  result to the nearest such value, ties to even.
\<close>

definition ulp_exp32 :: "real \<Rightarrow> int" where
  "ulp_exp32 x = max (ilog 2 \<bar>x\<bar> - 23) (- 149)"

definition fl32 :: "real \<Rightarrow> real" where
  "fl32 x = (if x = 0 then 0 else of_int (rne (x / 2 powi ulp_exp32 x)) * 2 powi ulp_exp32 x)"

definition round32 :: "real \<Rightarrow> jsnum" where
  "round32 x = (let r = fl32 x
                in if 2 ^ 128 \<le> r then PosInf
                   else if r \<le> - (2 ^ 128) then NegInf
                   else Num r)"

fun f32_add :: "jsnum \<Rightarrow> jsnum \<Rightarrow> jsnum" where
  "f32_add (Num a) (Num b) = round32 (a + b)"
| "f32_add NaN _ = NaN"
| "f32_add _ NaN = NaN"
| "f32_add PosInf NegInf = NaN"
| "f32_add NegInf PosInf = NaN"
| "f32_add PosInf _ = PosInf"
| "f32_add NegInf _ = NegInf"
| "f32_add _ PosInf = PosInf"
| "f32_add _ NegInf = NegInf"

definition f32_sub :: "jsnum \<Rightarrow> jsnum \<Rightarrow> jsnum" where
  "f32_sub a b = f32_add a (js_neg b)"

fun f32_div :: "jsnum \<Rightarrow> jsnum \<Rightarrow> jsnum" where
  "f32_div (Num a) (Num b) =
     (if b = 0 then (if a = 0 then NaN else js_inf (js_sign (Num a)))
      else round32 (a / b))"
| "f32_div NaN _ = NaN"
| "f32_div _ NaN = NaN"
| "f32_div (Num a) _ = Num 0"
| "f32_div a (Num b) = js_inf (js_sign a * js_sign (Num b))"
| "f32_div _ _ = NaN"

fun is_f32 :: "jsnum \<Rightarrow> bool" where
  \<comment> \<open>a value that a binary32 tensor can hold\<close>
  "is_f32 (Num a) = (round32 a = Num a)"
| "is_f32 _ = True"

subsection \<open>Reading an integer from a Number\<close>

fun shortest_lead :: "real \<Rightarrow> int \<Rightarrow> nat \<Rightarrow> nat \<Rightarrow> int" where
  \<comment> \<open>the leading digit of the shortest decimal \<open>s * 10 powi (e + 1 - k)\<close>, with \<open>k\<close>
      digits or more, that reads back as the double \<open>x\<close> (Number::toString); \<open>s\<close> is one of
      the two integers around \<open>x / 10 powi (e + 1 - k)\<close>, the closer one when both read
      back; 17 digits always suffice\<close>
  "shortest_lead x e 0 k = \<lfloor>x / 10 powi e\<rfloor>"
| "shortest_lead x e (Suc fuel) k =
     (let sc = 10 powi (e + 1 - int k);
          lo = \<lfloor>x / sc\<rfloor>;
          hi = lo + 1;
          ok_lo = (round64 (of_int lo * sc) = Num x);
          ok_hi = (round64 (of_int hi * sc) = Num x);
          s = (if ok_lo \<and> (\<not> ok_hi \<or> x - of_int lo * sc \<le> of_int hi * sc - x) then lo else hi)
      in if ok_lo \<or> ok_hi then (if s = 10 ^ k then 1 else s div 10 ^ (k - 1))
         else shortest_lead x e fuel (Suc k))"

definition exp_lead :: "real \<Rightarrow> int" where
  \<comment> \<open>the integer that \<^verbatim>\<open>parseInt\<close> reads from a Number printed in exponent
      notation (\<^verbatim>\<open>5e-7\<close>, \<^verbatim>\<open>1.2e+21\<close>): the leading digit of the shortest digit
      string that reads back as the same double, with the sign\<close>
  "exp_lead x = (if x < 0 then - 1 else 1) * shortest_lead \<bar>x\<bar> (ilog 10 \<bar>x\<bar>) 17 1"

fun parseInt :: "jsnum \<Rightarrow> jsnum" where
  \<comment> \<open>\<^verbatim>\<open>parseInt(x)\<close> of a Number: the argument is converted to a string, and the
      longest prefix that is a decimal integer is read back. Infinity and NaN print as
      words and give NaN. A finite value prints in positional notation when its magnitude
      is in \<open>[1e-6, 1e21)\<close>, so the digits before the point are read: the value truncated
      towards zero.\<close>
  "parseInt (Num x) =
     (if x = 0 then Num 0
      else if 1 / 10 ^ 6 \<le> \<bar>x\<bar> \<and> \<bar>x\<bar> < 10 ^ 21
           then Num (of_int (if 0 \<le> x then \<lfloor>x\<rfloor> else \<lceil>x\<rceil>))
           else Num (of_int (exp_lead x)))"
| "parseInt _ = NaN"

section \<open>Tensors\<close>

text \<open>
  A tensor of the numeric library is a shape and a flat buffer in row-major order. The
  tensors of the preprocessing hold pixel values, integers from 0 to 255 and what the
  resize and the division by 255 make of them; these are carried as the real numbers
  they approximate. The tensors that the model returns, and those that \<^verbatim>\<open>detect\<close>
  decodes from them, hold binary32 values, finite or not, and the arithmetic on them
  rounds. The suppression returns a tensor of indices.
\<close>

record 'a tensor =
  shape :: "nat list"
  vals :: "'a list"

datatype error = InvalidFrame | ShapeMismatch | OpError string

definition tab3 :: "nat \<Rightarrow> nat \<Rightarrow> nat \<Rightarrow> (nat \<Rightarrow> nat \<Rightarrow> nat \<Rightarrow> 'a) \<Rightarrow> 'a list" where
  \<comment> \<open>the row-major buffer of the rank-3 tensor whose element \<open>(i, j, k)\<close> is \<open>f i j k\<close>\<close>
  "tab3 a b c f = map (\<lambda>n. f (n div (b * c)) (n div c mod b) (n mod c)) [0..<a * b * c]"

definition at3 :: "'a tensor \<Rightarrow> nat \<Rightarrow> nat \<Rightarrow> nat \<Rightarrow> 'a" where
  \<comment> \<open>element \<open>(i, j, k)\<close> of a rank-3 tensor\<close>
  "at3 t i j k = vals t ! ((i * (shape t ! 1) + j) * (shape t ! 2) + k)"

subsection \<open>The operations of the library that the program calls\<close>

definition pad :: "real tensor \<Rightarrow> nat \<Rightarrow> nat \<Rightarrow> error + real tensor" where
  \<comment> \<open>\<^verbatim>\<open>t.pad([[0, pb], [0, pr], [0, 0]])\<close>: rows added below and columns added on the
      right, filled with the default constant 0\<close>
  "pad t pb pr =
     (case shape t of
        [h, w, c] \<Rightarrow>
          Inr \<lparr>shape = [h + pb, w + pr, c],
               vals = tab3 (h + pb) (w + pr) c
                        (\<lambda>i j k. if i < h \<and> j < w then vals t ! ((i * w + j) * c + k) else 0)\<rparr>
      | _ \<Rightarrow> Inl (OpError ''pad''))"

definition bilinear :: "real tensor \<Rightarrow> nat \<Rightarrow> nat \<Rightarrow> nat \<Rightarrow> nat \<Rightarrow> nat \<Rightarrow> nat \<Rightarrow> nat \<Rightarrow> nat \<Rightarrow> real" where
  \<comment> \<open>one output element of the bilinear resize of an \<open>h \<times> w \<times> c\<close> image to
      \<open>nh \<times> nw\<close> (corners not aligned, no half-pixel offset): the four source pixels
      around the source position, interpolated along the columns, then along the rows.
      For an empty source image there is no pixel to read; the value is left unspecified.\<close>
  "bilinear t h w c nh nw r q d =
     (let sr = real h / real nh * real r;
          r0 = nat \<lfloor>sr\<rfloor>;
          r1 = min (h - 1) (nat \<lceil>sr\<rceil>);
          fr = sr - real r0;
          sc = real w / real nw * real q;
          c0 = nat \<lfloor>sc\<rfloor>;
          c1 = min (w - 1) (nat \<lceil>sc\<rceil>);
          fc = sc - real c0;
          px = (\<lambda>i j. vals t ! ((i * w + j) * c + d));
          top = px r0 c0 + (px r0 c1 - px r0 c0) * fc;
          bottom = px r1 c0 + (px r1 c1 - px r1 c0) * fc
      in top + (bottom - top) * fr)"

definition resizeBilinear :: "real tensor \<Rightarrow> nat \<Rightarrow> nat \<Rightarrow> error + real tensor" where
  \<comment> \<open>\<^verbatim>\<open>tf.image.resizeBilinear(t, [nh, nw])\<close>: the library reads the size as
      \<open>[newHeight, newWidth]\<close>\<close>
  "resizeBilinear t nh nw =
     (case shape t of
        [h, w, c] \<Rightarrow>
          Inr \<lparr>shape = [nh, nw, c], vals = tab3 nh nw c (bilinear t h w c nh nw)\<rparr>
      | _ \<Rightarrow> Inl (OpError ''resizeBilinear''))"

definition div_scalar :: "real tensor \<Rightarrow> real \<Rightarrow> real tensor" where
  "div_scalar t x = \<lparr>shape = shape t, vals = map (\<lambda>v. v / x) (vals t)\<rparr>"

definition div_scalar32 :: "jsnum tensor \<Rightarrow> jsnum \<Rightarrow> jsnum tensor" where
  \<comment> \<open>\<^verbatim>\<open>tf.div(t, x)\<close> of a binary32 tensor by a scalar\<close>
  "div_scalar32 t x = \<lparr>shape = shape t, vals = map (\<lambda>v. f32_div v x) (vals t)\<rparr>"

definition expandDims0 :: "'a tensor \<Rightarrow> 'a tensor" where
  "expandDims0 t = \<lparr>shape = 1 # shape t, vals = vals t\<rparr>"

definition transpose021 :: "'a tensor \<Rightarrow> error + 'a tensor" where
  \<comment> \<open>\<^verbatim>\<open>t.transpose([0, 2, 1])\<close>\<close>
  "transpose021 t =
     (case shape t of
        [b, a, n] \<Rightarrow>
          Inr \<lparr>shape = [b, n, a],
               vals = tab3 b n a (\<lambda>i j k. vals t ! ((i * a + k) * n + j))\<rparr>
      | _ \<Rightarrow> Inl (OpError ''transpose''))"

definition slice_last :: "'a tensor \<Rightarrow> nat \<Rightarrow> int \<Rightarrow> error + 'a tensor" where
  \<comment> \<open>\<^verbatim>\<open>t.slice([0, 0, k], [-1, -1, sz])\<close>: the attributes \<open>k, ..., k + sz - 1\<close> of every
      row; a size of \<open>-1\<close> takes all that remain. The library refuses a slice that
      leaves the tensor.\<close>
  "slice_last t k sz =
     (case shape t of
        [b, n, a] \<Rightarrow>
          (let size = (if sz = - 1 then int a - int k else sz)
           in if size < 0 \<or> int a < int k + size then Inl (OpError ''slice'')
              else Inr \<lparr>shape = [b, n, nat size],
                        vals = tab3 b n (nat size) (\<lambda>i j l. vals t ! ((i * n + j) * a + k + l))\<rparr>)
      | _ \<Rightarrow> Inl (OpError ''slice''))"

definition binop :: "('a \<Rightarrow> 'a \<Rightarrow> 'a) \<Rightarrow> 'a tensor \<Rightarrow> 'a tensor \<Rightarrow> 'a tensor" where
  \<comment> \<open>an element-wise operation; the operands of the program always have equal shapes\<close>
  "binop f x y = \<lparr>shape = shape x, vals = map2 f (vals x) (vals y)\<rparr>"

definition concat2 :: "'a tensor list \<Rightarrow> error + 'a tensor" where
  \<comment> \<open>\<^verbatim>\<open>tf.concat(ts, 2)\<close> of rank-3 tensors of one shape \<open>[b, n, c]\<close>\<close>
  "concat2 ts =
     (case ts of
        [] \<Rightarrow> Inl (OpError ''concat'')
      | t # _ \<Rightarrow>
          (case shape t of
             [b, n, c] \<Rightarrow>
               if \<forall>u \<in> set ts. shape u = [b, n, c]
               then Inr \<lparr>shape = [b, n, length ts * c],
                         vals = tab3 b n (length ts * c)
                                  (\<lambda>i j k. vals (ts ! (k div c)) ! ((i * n + j) * c + k mod c))\<rparr>
               else Inl (OpError ''concat'')
           | _ \<Rightarrow> Inl (OpError ''concat'')))"

definition squeeze :: "'a tensor \<Rightarrow> 'a tensor" where
  \<comment> \<open>\<^verbatim>\<open>t.squeeze()\<close> drops every dimension of size 1\<close>
  "squeeze t = \<lparr>shape = filter (\<lambda>d. d \<noteq> 1) (shape t), vals = vals t\<rparr>"

definition gather0 :: "'a tensor \<Rightarrow> nat list \<Rightarrow> error + 'a tensor" where
  \<comment> \<open>\<^verbatim>\<open>t.gather(indices, 0)\<close>: the rows of \<open>t\<close> at the given positions, in that order\<close>
  "gather0 t idx =
     (case shape t of
        [] \<Rightarrow> Inl (OpError ''gather'')
      | n # rest \<Rightarrow>
          if \<forall>i \<in> set idx. i < n
          then Inr \<lparr>shape = length idx # rest,
                    vals = concat (map (\<lambda>i. take (prod_list rest) (drop (i * prod_list rest) (vals t))) idx)\<rparr>
          else Inl (OpError ''gather''))"

definition reshape_infer :: "'a list \<Rightarrow> nat list \<Rightarrow> error + 'a tensor" where
  \<comment> \<open>\<^verbatim>\<open>tf.reshape(data, [-1, d1, ..., dn])\<close> of a flat buffer: the leading dimension is
      inferred; the library refuses a buffer whose length is no multiple of the rest\<close>
  "reshape_infer xs ds =
     (if prod_list ds = 0 \<or> length xs mod prod_list ds \<noteq> 0 then Inl (OpError ''reshape'')
      else Inr \<lparr>shape = (length xs div prod_list ds) # ds, vals = xs\<rparr>)"

subsection \<open>Non-maximum suppression\<close>

text \<open>
  Modelled from the spec: \<^verbatim>\<open>tf.image.nonMaxSuppressionAsync\<close> belongs to the numeric
  library and is not part of the sources; its algorithm is the Suppressor of the
  specification (section 4.3). A detection whose score is below the score threshold is
  discarded; the others are ordered by descending score, equal scores by ascending index;
  the best remaining detection is emitted and every remaining detection whose
  intersection over union with it exceeds the threshold is removed, until none remains or
  the maximal number has been emitted. The boxes and the scores are binary32 values, the
  thresholds are Numbers; the comparisons are those of JavaScript and the intersection
  over union is computed in double precision. The library refuses boxes that are not of
  shape \<open>[n, 4]\<close> and scores that are not of shape \<open>[n]\<close>; its result is a tensor of
  indices.
\<close>

type_synonym box = "jsnum \<times> jsnum \<times> jsnum \<times> jsnum"

definition box_at :: "jsnum tensor \<Rightarrow> nat \<Rightarrow> box" where
  \<comment> \<open>row \<open>i\<close> of a box tensor: \<open>(y1, x1, y2, x2)\<close>\<close>
  "box_at b i = (vals b ! (4 * i), vals b ! (4 * i + 1), vals b ! (4 * i + 2), vals b ! (4 * i + 3))"

fun area :: "box \<Rightarrow> jsnum" where
  "area (y1, x1, y2, x2) = js_mul (js_sub y2 y1) (js_sub x2 x1)"

fun inter :: "box \<Rightarrow> box \<Rightarrow> jsnum" where
  "inter (y1, x1, y2, x2) (v1, u1, v2, u2) =
     js_mul (js_max (Num 0) (js_sub (js_min y2 v2) (js_max y1 v1)))
            (js_max (Num 0) (js_sub (js_min x2 u2) (js_max x1 u1)))"

definition iou :: "box \<Rightarrow> box \<Rightarrow> jsnum" where
  \<comment> \<open>a box without area overlaps nothing\<close>
  "iou a b = (if js_le (area a) (Num 0) \<or> js_le (area b) (Num 0) then Num 0
              else js_div (inter a b) (js_sub (js_add (area a) (area b)) (inter a b)))"

definition candidates :: "jsnum list \<Rightarrow> jsnum \<Rightarrow> nat list" where
  "candidates scores scoreThreshold =
     filter (\<lambda>i. \<not> js_lt (scores ! i) scoreThreshold) [0..<length scores]"

fun place :: "jsnum list \<Rightarrow> nat \<Rightarrow> nat list \<Rightarrow> nat list" where
  \<comment> \<open>\<open>i\<close> goes in front of the first detection whose score is not higher than its own\<close>
  "place scores i [] = [i]"
| "place scores i (j # pool) =
     (if js_lt (scores ! i) (scores ! j) then j # place scores i pool else i # j # pool)"

definition by_score :: "jsnum list \<Rightarrow> nat list \<Rightarrow> nat list" where
  \<comment> \<open>descending score; the sort is stable, so equal scores stay in index order\<close>
  "by_score scores idx = foldr (place scores) idx []"

fun select :: "jsnum tensor \<Rightarrow> jsnum \<Rightarrow> nat \<Rightarrow> nat list \<Rightarrow> nat list" where
  "select b iouThreshold 0 pool = []"
| "select b iouThreshold (Suc k) [] = []"
| "select b iouThreshold (Suc k) (i # pool) =
     i # select b iouThreshold k
           (filter (\<lambda>j. \<not> js_lt iouThreshold (iou (box_at b i) (box_at b j))) pool)"

definition nonMaxSuppression ::
    "jsnum tensor \<Rightarrow> jsnum tensor \<Rightarrow> nat \<Rightarrow> jsnum \<Rightarrow> jsnum \<Rightarrow> error + nat tensor" where
  "nonMaxSuppression boxes scores maxOutputs iouThreshold scoreThreshold =
     (case shape boxes of
        [n, c] \<Rightarrow>
          if c = 4 \<and> shape scores = [n]
          then (let idx = select boxes iouThreshold maxOutputs
                            (by_score (vals scores) (candidates (vals scores) scoreThreshold))
                in Inr \<lparr>shape = [length idx], vals = idx\<rparr>)
          else Inl (OpError ''nonMaxSuppression'')
      | _ \<Rightarrow> Inl (OpError ''nonMaxSuppression''))"

definition indices :: "nat tensor \<Rightarrow> nat list" where
  \<comment> \<open>the entries of an index tensor\<close>
  "indices t = vals t"

section \<open>The engine and the page\<close>

text \<open>
  The engine of the numeric library numbers the tensors it creates, knows which are still
  allocated, and keeps a stack of scopes; a new tensor is recorded in the innermost open
  scope. The page holds what the program writes to: the canvas and the renderer (a log of
  events), the queue of requested animation frames, and the text of the FPS element.
\<close>

record engine =
  nextId :: nat
  live :: "nat set"
  scopes :: "nat set list"

datatype event =
    ClearRect nat nat nat nat
  | RenderBoxes "jsnum tensor" "jsnum list" "jsnum list" jsnum jsnum
  | ConsoleLog jsnum
  | SetInnerHTML jsnum

record world =
  eng :: engine
  events :: "event list"
  rafQueue :: nat
  innerHTML :: jsnum

type_synonym 'a io = "world \<Rightarrow> (error + 'a) \<times> world"

type_synonym 'a handle = "nat \<times> 'a tensor"

definition ret :: "'a \<Rightarrow> 'a io" where
  "ret x w = (Inr x, w)"

definition throw :: "error \<Rightarrow> 'a io" where
  "throw e w = (Inl e, w)"

definition bnd :: "'a io \<Rightarrow> ('a \<Rightarrow> 'b io) \<Rightarrow> 'b io" where
  \<comment> \<open>sequencing: an exception of the first step skips the rest\<close>
  "bnd m f w = (case m w of (Inl e, w') \<Rightarrow> (Inl e, w') | (Inr x, w') \<Rightarrow> f x w')"

definition track :: "'a tensor \<Rightarrow> 'a handle io" where
  \<comment> \<open>a new tensor: allocated, and recorded in the innermost scope when there is one\<close>
  "track t w =
     (let e = eng w; i = nextId e
      in (Inr (i, t),
          w\<lparr>eng := e\<lparr>nextId := Suc i, live := insert i (live e),
                       scopes := (case scopes e of [] \<Rightarrow> [] | s # ss \<Rightarrow> insert i s # ss)\<rparr>\<rparr>))"

definition tf_op :: "error + 'a tensor \<Rightarrow> 'a handle io" where
  \<comment> \<open>an operation of the library: it throws, or its result is a new tensor\<close>
  "tf_op r = (case r of Inl e \<Rightarrow> throw e | Inr t \<Rightarrow> track t)"

definition open_scope :: "engine \<Rightarrow> engine" where
  "open_scope e = e\<lparr>scopes := {} # scopes e\<rparr>"

definition close_scope :: "nat set \<Rightarrow> engine \<Rightarrow> engine" where
  \<comment> \<open>the innermost scope ends: its tensors are freed, except the results, which pass to
      the enclosing scope\<close>
  "close_scope keep e =
     (case scopes e of
        [] \<Rightarrow> e
      | s # ss \<Rightarrow>
          e\<lparr>live := live e - (s - keep),
            scopes := (case ss of [] \<Rightarrow> [] | p # ps \<Rightarrow> (p \<union> (s \<inter> keep)) # ps)\<rparr>)"

definition startScope :: "unit io" where
  "startScope w = (Inr (), w\<lparr>eng := open_scope (eng w)\<rparr>)"

definition endScope :: "unit io" where
  \<comment> \<open>\<^verbatim>\<open>tf.engine().endScope()\<close>; without an open scope the engine dereferences null\<close>
  "endScope w =
     (if scopes (eng w) = [] then (Inl (OpError ''TypeError''), w)
      else (Inr (), w\<lparr>eng := close_scope {} (eng w)\<rparr>))"

definition tidy :: "('a \<Rightarrow> nat set) \<Rightarrow> 'a io \<Rightarrow> 'a io" where
  \<comment> \<open>\<^verbatim>\<open>tf.tidy(fn)\<close>: \<open>fn\<close> runs in a scope of its own, which is closed when \<open>fn\<close>
      returns (its result is kept) and also when \<open>fn\<close> throws\<close>
  "tidy kept m w =
     (case m (w\<lparr>eng := open_scope (eng w)\<rparr>) of
        (Inl e, w') \<Rightarrow> (Inl e, w'\<lparr>eng := close_scope {} (eng w')\<rparr>)
      | (Inr x, w') \<Rightarrow> (Inr x, w'\<lparr>eng := close_scope (kept x) (eng w')\<rparr>))"

definition dispose :: "nat list \<Rightarrow> unit io" where
  "dispose ids w = (Inr (), w\<lparr>eng := (eng w)\<lparr>live := live (eng w) - set ids\<rparr>\<rparr>)"

definition emit :: "event \<Rightarrow> unit io" where
  "emit ev w = (Inr (), w\<lparr>events := events w @ [ev]\<rparr>)"

definition requestAnimationFrame :: "unit io" where
  "requestAnimationFrame w = (Inr (), w\<lparr>rafQueue := Suc (rafQueue w)\<rparr>)"

section \<open>The program\<close>

record source =
  videoWidth :: nat
  srcObject :: "unit option"
  fromPixels :: "error + real tensor"
    \<comment> \<open>what \<^verbatim>\<open>tf.browser.fromPixels\<close> makes of the element: a tensor of shape
        \<open>[height, width, 3]\<close>, or an exception of the library\<close>

record model =
  net :: "(real tensor \<Rightarrow> error + jsnum tensor) option"
    \<comment> \<open>\<^verbatim>\<open>model.net.execute\<close>; \<open>None\<close> while the model is not loaded (\<^verbatim>\<open>net: null\<close>)\<close>
  inputShape :: "nat list"

record canvas =
  cwidth :: nat
  cheight :: nat

subsection \<open>preprocess\<close>

definition preprocess :: "source \<Rightarrow> nat \<Rightarrow> nat \<Rightarrow> (real handle \<times> jsnum \<times> jsnum) io" where
  "preprocess src modelWidth modelHeight =
     tidy (\<lambda>(input, xRatio, yRatio). {fst input})
       (bnd (tf_op (fromPixels src)) (\<lambda>img.
          case shape (snd img) of
            h # w # _ \<Rightarrow>
              (let maxSize = max w h
               in bnd (tf_op (pad (snd img) (maxSize - h) (maxSize - w))) (\<lambda>imgPadded.
                  let xRatio = js_div (Num (real maxSize)) (Num (real w));
                      yRatio = js_div (Num (real maxSize)) (Num (real h))
                  in bnd (tf_op (resizeBilinear (snd imgPadded) modelWidth modelHeight)) (\<lambda>resized.
                     bnd (track (div_scalar (snd resized) 255)) (\<lambda>normalized.
                     bnd (track (expandDims0 (snd normalized))) (\<lambda>input.
                     ret (input, xRatio, yRatio))))))
          | _ \<Rightarrow> throw (OpError ''shape'')))"

subsection \<open>detect\<close>

definition boxes_of :: "jsnum tensor \<Rightarrow> jsnum handle io" where
  \<comment> \<open>the \<^verbatim>\<open>boxes\<close> block: \<open>[y1, x1, y2, x2]\<close> of every detection\<close>
  "boxes_of transRes =
     tidy (\<lambda>r. {fst r})
       (bnd (tf_op (slice_last transRes 2 1)) (\<lambda>w.
        bnd (tf_op (slice_last transRes 3 1)) (\<lambda>h.
        bnd (tf_op (slice_last transRes 0 1)) (\<lambda>cx.
        bnd (track (div_scalar32 (snd w) (Num 2))) (\<lambda>w2.
        bnd (track (binop f32_sub (snd cx) (snd w2))) (\<lambda>x1.
        bnd (tf_op (slice_last transRes 1 1)) (\<lambda>cy.
        bnd (track (div_scalar32 (snd h) (Num 2))) (\<lambda>h2.
        bnd (track (binop f32_sub (snd cy) (snd h2))) (\<lambda>y1.
        bnd (track (binop f32_add (snd y1) (snd h))) (\<lambda>y2.
        bnd (track (binop f32_add (snd x1) (snd w))) (\<lambda>x2.
        bnd (tf_op (concat2 [snd y1, snd x1, snd y2, snd x2])) (\<lambda>c.
        track (squeeze (snd c))))))))))))))"

definition scores_of :: "'a tensor \<Rightarrow> 'a handle io" where
  "scores_of transRes =
     tidy (\<lambda>r. {fst r})
       (bnd (tf_op (slice_last transRes 4 1)) (\<lambda>s. track (squeeze (snd s))))"

definition landmarks_of :: "'a tensor \<Rightarrow> 'a handle io" where
  "landmarks_of transRes =
     tidy (\<lambda>r. {fst r})
       (bnd (tf_op (slice_last transRes 5 (- 1))) (\<lambda>s. track (squeeze (snd s))))"

definition reshape :: "'a list \<Rightarrow> nat list \<Rightarrow> 'a handle io" where
  \<comment> \<open>\<^verbatim>\<open>tf.reshape(data, shape)\<close> of a typed array: an operation of the library runs in
      a scope of its own; there the array becomes a tensor, which is freed when the
      operation ends, also by an exception; the reshaped tensor is the result\<close>
  "reshape xs ds =
     tidy (\<lambda>r. {fst r})
       (bnd (track \<lparr>shape = [length xs], vals = xs\<rparr>) (\<lambda>flat.
        tf_op (reshape_infer (vals (snd flat)) ds)))"

definition detect :: "source \<Rightarrow> model \<Rightarrow> unit io \<Rightarrow> unit io" where
  "detect src mdl callback =
     (let dims = take 2 (drop 1 (inputShape mdl))
      in bnd startScope (\<lambda>_.
         bnd (case dims of
                [modelWidth, modelHeight] \<Rightarrow> preprocess src modelWidth modelHeight
              | _ \<Rightarrow> throw (OpError ''inputShape'')) (\<lambda>(input, xRatio, yRatio).
         bnd (case net mdl of
                None \<Rightarrow> throw (OpError ''TypeError'')
              | Some execute \<Rightarrow> tf_op (execute (snd input))) (\<lambda>res.
         bnd (tf_op (transpose021 (snd res))) (\<lambda>transRes.
         bnd (boxes_of (snd transRes)) (\<lambda>boxes.
         bnd (scores_of (snd transRes)) (\<lambda>scores.
         bnd (landmarks_of (snd transRes)) (\<lambda>landmarks.
         bnd (tf_op (nonMaxSuppression (snd boxes) (snd scores) 10 (round64 (45 / 100)) (round64 (3 / 10)))) (\<lambda>nms.
         bnd (tf_op (gather0 (snd boxes) (indices (snd nms)))) (\<lambda>boxes_g.
         bnd (tf_op (gather0 (snd scores) (indices (snd nms)))) (\<lambda>scores_g.
         bnd (tf_op (gather0 (snd landmarks) (indices (snd nms)))) (\<lambda>landmarks_g.
         bnd (reshape (vals (snd landmarks_g)) [3, 17]) (\<lambda>landmarks_data.
         bnd (emit (RenderBoxes (snd landmarks_data) (vals (snd boxes_g)) (vals (snd scores_g))
                      xRatio yRatio)) (\<lambda>_.
         bnd (dispose [fst res, fst transRes, fst boxes, fst scores, fst nms]) (\<lambda>_.
         bnd callback (\<lambda>_.
         endScope))))))))))))))))"

subsection \<open>detectVideo\<close>

record sched =
  startInferenceTime :: jsnum
  endInferenceTime :: jsnum
  inferenceTimeSum :: jsnum
  numInferences :: jsnum
  lastFpsRefresh :: jsnum

record tick =
  vidSource :: source
    \<comment> \<open>the video element as the tick finds it\<close>
  now_start :: real
  now_end :: real
    \<comment> \<open>the two readings of the clock, before and after the detection\<close>

definition FPSUpdateMilliseconds :: jsnum where
  "FPSUpdateMilliseconds = Num 1000"

definition detectFrame :: "model \<Rightarrow> canvas \<Rightarrow> tick \<Rightarrow> sched \<times> world \<Rightarrow> (error + unit) \<times> sched \<times> world" where
  "detectFrame mdl cv t = (\<lambda>(s, w).
     if videoWidth (vidSource t) = 0 \<and> srcObject (vidSource t) = None
     then (Inr (), s, w\<lparr>events := events w @ [ClearRect 0 0 (cwidth cv) (cheight cv)]\<rparr>)
     else
       (let s1 = s\<lparr>startInferenceTime := Num (now_start t)\<rparr>
        in case detect (vidSource t) mdl requestAnimationFrame w of
             (Inl e, w') \<Rightarrow> (Inl e, s1, w')
           | (Inr _, w') \<Rightarrow>
               (let s2 = s1\<lparr>endInferenceTime := Num (now_end t)\<rparr>;
                    d = js_sub (endInferenceTime s2) (startInferenceTime s2);
                    s3 = s2\<lparr>inferenceTimeSum := js_add (inferenceTimeSum s2) d,
                            numInferences := js_add (numInferences s2) (Num 1)\<rparr>;
                    w2 = w'\<lparr>events := events w' @ [ConsoleLog d]\<rparr>
                in if js_ge (js_sub (endInferenceTime s3) (lastFpsRefresh s3)) FPSUpdateMilliseconds
                   then (let averageInferenceTime = js_div (inferenceTimeSum s3) (numInferences s3);
                             fps = parseInt (js_div (Num 1000) averageInferenceTime)
                         in (Inr (),
                             s3\<lparr>inferenceTimeSum := Num 0, numInferences := Num 0,
                                lastFpsRefresh := endInferenceTime s3\<rparr>,
                             w2\<lparr>innerHTML := fps, events := events w2 @ [SetInnerHTML fps]\<rparr>))
                   else (Inr (), s3, w2))))"

fun frames :: "model \<Rightarrow> canvas \<Rightarrow> tick list \<Rightarrow> sched \<times> world \<Rightarrow> sched \<times> world" where
  \<comment> \<open>the browser runs the queued frame requests, one tick each, as long as there are any\<close>
  "frames mdl cv [] (s, w) = (s, w)"
| "frames mdl cv (t # ts) (s, w) =
     (if rafQueue w = 0 then (s, w)
      else (case detectFrame mdl cv t (s, w\<lparr>rafQueue := rafQueue w - 1\<rparr>) of
              (_, s', w') \<Rightarrow> frames mdl cv ts (s', w')))"

definition detectVideo :: "model \<Rightarrow> canvas \<Rightarrow> tick \<Rightarrow> tick list \<Rightarrow> world \<Rightarrow> sched \<times> world" where
  \<comment> \<open>\<open>t\<close> is the tick of the direct call of \<^verbatim>\<open>detectFrame\<close>, \<open>ts\<close> those of the
      animation frames that follow\<close>
  "detectVideo mdl cv t ts w =
     (let s0 = \<lparr>startInferenceTime = Num 0, endInferenceTime = Num 0, inferenceTimeSum = Num 0,
                numInferences = Num 0, lastFpsRefresh = Num 0\<rparr>;
          w0 = w\<lparr>innerHTML := Num 0, events := events w @ [SetInnerHTML (Num 0)]\<rparr>
      in case detectFrame mdl cv t (s0, w0) of (_, s', w') \<Rightarrow> frames mdl cv ts (s', w'))"

section \<open>Assertions\<close>

text \<open>
  The bookkeeping of the engine is described by two predicates. An engine is \<open>fresh\<close>
  when every allocated tensor has a number below the next one to be given out.
  \<open>inside e0 e\<close> relates the engine \<open>e0\<close> at the moment a scope is opened to a later
  engine \<open>e\<close> in which that scope is still the innermost one: the enclosing scopes are
  untouched, everything allocated at \<open>e0\<close> is still allocated, and whatever has been
  allocated since is recorded in the open scope.
\<close>

definition fresh :: "engine \<Rightarrow> bool" where
  "fresh e \<longleftrightarrow> (\<forall>i \<in> live e. i < nextId e)"

definition inside :: "engine \<Rightarrow> engine \<Rightarrow> bool" where
  "inside e0 e \<longleftrightarrow>
     nextId e0 \<le> nextId e \<and>
     (\<exists>s. scopes e = s # scopes e0 \<and> (\<forall>i \<in> s. nextId e0 \<le> i \<and> i < nextId e) \<and>
          live e0 \<subseteq> live e \<and> live e - live e0 \<subseteq> s)"

definition scoped :: "nat \<Rightarrow> ('a \<Rightarrow> nat set) \<Rightarrow> 'a io \<Rightarrow> bool" where
  \<comment> \<open>a computation that keeps the discipline of the open scope, whether it returns or
      throws, and whose results \<open>ids x\<close> are tensors numbered from \<open>n\<close> on\<close>
  "scoped n ids m \<longleftrightarrow>
     (\<forall>e0 w. fresh e0 \<and> inside e0 (eng w) \<and> nextId e0 \<le> n \<and> n \<le> nextId (eng w) \<longrightarrow>
        (case m w of (r, w') \<Rightarrow>
           inside e0 (eng w') \<and> nextId (eng w) \<le> nextId (eng w') \<and>
           (\<forall>x. r = Inr x \<longrightarrow> (\<forall>i \<in> ids x. n \<le> i))))"

definition closes :: "nat \<Rightarrow> 'a io \<Rightarrow> bool" where
  \<comment> \<open>a computation that starts inside the open scope and ends it when it returns: the
      allocated tensors and the scopes are then those of the moment the scope was opened;
      when it throws, the scope is still open\<close>
  "closes n m \<longleftrightarrow>
     (\<forall>e0 w. fresh e0 \<and> inside e0 (eng w) \<and> nextId e0 \<le> n \<and> n \<le> nextId (eng w) \<longrightarrow>
        (case m w of
           (Inr _, w') \<Rightarrow> live (eng w') = live e0 \<and> scopes (eng w') = scopes e0 \<and>
                          nextId e0 \<le> nextId (eng w')
         | (Inl _, w') \<Rightarrow> inside e0 (eng w')))"

fun is_set :: "event \<Rightarrow> bool" where
  "is_set (SetInnerHTML _) = True"
| "is_set _ = False"

fun shown :: "jsnum \<Rightarrow> event list \<Rightarrow> jsnum" where
  \<comment> \<open>the text of the FPS element after the events, when it was \<open>v\<close> before them\<close>
  "shown v [] = v"
| "shown v (SetInnerHTML x # evs) = shown x evs"
| "shown v (_ # evs) = shown v evs"

definition calm :: "'a io \<Rightarrow> bool" where
  \<comment> \<open>a computation that leaves the FPS element alone\<close>
  "calm m \<longleftrightarrow>
     (\<forall>w. case m w of (r, w') \<Rightarrow>
        innerHTML w' = innerHTML w \<and>
        (\<exists>evs. events w' = events w @ evs \<and> (\<forall>ev \<in> set evs. \<not> is_set ev)))"

definition gives :: "nat \<Rightarrow> nat \<Rightarrow> 'a io \<Rightarrow> ('a \<Rightarrow> bool) \<Rightarrow> bool" where
  \<comment> \<open>a computation that returns, with a result that satisfies \<open>P\<close>, from every world
      with \<open>n\<close> open scopes, and leaves \<open>n'\<close> scopes open\<close>
  "gives n n' m P \<longleftrightarrow>
     (\<forall>w. length (scopes (eng w)) = n \<longrightarrow>
        (\<exists>x w'. m w = (Inr x, w') \<and> P x \<and> length (scopes (eng w')) = n'))"

definition quiet :: "'a io \<Rightarrow> bool" where
  \<comment> \<open>a computation that touches nothing of the page\<close>
  "quiet m \<longleftrightarrow>
     (\<forall>w. case m w of (r, w') \<Rightarrow>
        events w' = events w \<and> rafQueue w' = rafQueue w \<and> innerHTML w' = innerHTML w)"

definition pose_output :: "model \<Rightarrow> bool" where
  \<comment> \<open>the raw output of the model has the layout of a pose model: one image, 56 attributes
      (box, score, 17 keypoints of 3 values) for each of its detections\<close>
  "pose_output mdl \<longleftrightarrow>
     (\<forall>execute t raw. net mdl = Some execute \<and> execute t = Inr raw \<longrightarrow> (\<exists>n. shape raw = [1, 56, n]))"

section \<open>Examples\<close>

definition w_init :: world where
  "w_init = \<lparr>eng = \<lparr>nextId = 0, live = {}, scopes = []\<rparr>, events = [], rafQueue = 0,
             innerHTML = Num 0\<rparr>"

definition canvas_ex :: canvas where
  "canvas_ex = \<lparr>cwidth = 640, cheight = 640\<rparr>"

definition model_unloaded :: model where
  \<comment> \<open>the model of the page before loading has finished\<close>
  "model_unloaded = \<lparr>net = None, inputShape = [1, 0, 0, 3]\<rparr>"

definition closed_source :: source where
  "closed_source = \<lparr>videoWidth = 0, srcObject = None, fromPixels = Inl (OpError ''fromPixels'')\<rparr>"

definition sched_ex :: sched where
  "sched_ex = \<lparr>startInferenceTime = Num 0, endInferenceTime = Num 0, inferenceTimeSum = Num 0,
               numInferences = Num 0, lastFpsRefresh = Num 0\<rparr>"

definition raw_ex :: "jsnum tensor" where
  \<comment> \<open>a raw output with two detections of 56 attributes each; the first has centre
      \<open>(1, 1)\<close>, size \<open>2 \<times> 2\<close> and score 0.875, the second size \<open>1 \<times> 1\<close> and score
      0.25; keypoint value \<open>p\<close> of detection \<open>d\<close> is \<open>2 * p + d\<close>\<close>
  "raw_ex = \<lparr>shape = [1, 56, 2],
             vals = map Num ([1, 1, 1, 1, 2, 1, 2, 1, 7 / 8, 1 / 4] @ map real [0..<102])\<rparr>"

definition frame_ex :: source where
  \<comment> \<open>a playing video whose frame is one pixel high and two wide\<close>
  "frame_ex = \<lparr>videoWidth = 2, srcObject = Some (),
               fromPixels = Inr \<lparr>shape = [1, 2, 3], vals = [255, 0, 0, 0, 255, 0]\<rparr>\<rparr>"

definition model_ex :: model where
  "model_ex = \<lparr>net = Some (\<lambda>_. Inr raw_ex), inputShape = [1, 2, 2, 3]\<rparr>"

definition tick_closed :: tick where
  "tick_closed = \<lparr>vidSource = closed_source, now_start = 5000, now_end = 5000\<rparr>"

definition tick_ex :: tick where
  "tick_ex = \<lparr>vidSource = frame_ex, now_start = 5000, now_end = 5020\<rparr>"

definition transRes_ex :: "jsnum tensor" where
  \<comment> \<open>two detections with four attributes: centre \<open>(1, 1)\<close> and size \<open>2 \<times> 2\<close>, centre
      \<open>(3, 3)\<close> and size \<open>1 \<times> 1\<close>\<close>
  "transRes_ex = \<lparr>shape = [1, 2, 4], vals = map Num [1, 1, 2, 2, 3, 3, 1, 1]\<rparr>"

definition transRes_big :: "jsnum tensor" where
  \<comment> \<open>two detections of size \<open>1 \<times> 1\<close>, the first centred at \<open>(2 ^ 24, 2 ^ 24)\<close>\<close>
  "transRes_big = \<lparr>shape = [1, 2, 4], vals = map Num [16777216, 16777216, 1, 1, 3, 3, 1, 1]\<rparr>"

definition frame_7x29 :: source where
  \<comment> \<open>a black image, 7 pixels wide and 29 high\<close>
  "frame_7x29 = \<lparr>videoWidth = 7, srcObject = None,
                  fromPixels = Inr \<lparr>shape = [29, 7, 3], vals = replicate 609 0\<rparr>\<rparr>"

definition frame_0x2 :: source where
  \<comment> \<open>an image element without width: \<^verbatim>\<open>fromPixels\<close> delivers a tensor of shape \<open>[2, 0, 3]\<close>\<close>
  "frame_0x2 = \<lparr>videoWidth = 0, srcObject = Some (),
                 fromPixels = Inr \<lparr>shape = [2, 0, 3], vals = []\<rparr>\<rparr>"

definition source_failing :: source where
  \<comment> \<open>a playing video of which \<^verbatim>\<open>fromPixels\<close> cannot read a frame\<close>
  "source_failing = \<lparr>videoWidth = 2, srcObject = Some (),
                      fromPixels = Inl (OpError ''fromPixels'')\<rparr>"

definition tick_failing :: tick where
  "tick_failing = \<lparr>vidSource = source_failing, now_start = 5000, now_end = 5020\<rparr>"

definition raw_single :: "jsnum tensor" where
  \<comment> \<open>a raw output with a single detection: centre \<open>(1, 1)\<close>, size \<open>2 \<times> 2\<close>, score 0.875\<close>
  "raw_single = \<lparr>shape = [1, 56, 1], vals = map Num ([1, 1, 2, 2, 7 / 8] @ replicate 51 0)\<rparr>"

definition model_single :: model where
  "model_single = \<lparr>net = Some (\<lambda>_. Inr raw_single), inputShape = [1, 2, 2, 3]\<rparr>"


section \<open>Properties\<close>

subsection \<open>Numbers\<close>

lemma ilog_code [code]:
  "ilog b x = (if x \<le> 0 \<or> b < 2 then 0
               else if real b \<le> x then ilog b (x / real b) + 1
               else if x < 1 then ilog b (x * real b) - 1
               else 0)"
proof -
  { assume x: "0 < x" and b: "2 \<le> b"
    have b1: "1 < real b" "0 < real b" "real b \<noteq> 1" using b by auto
    have "\<lfloor>log (real b) (x / real b)\<rfloor> + 1 = \<lfloor>log (real b) x\<rfloor>"
      using x b1 by (simp add: log_divide)
    moreover have "\<lfloor>log (real b) (x * real b)\<rfloor> - 1 = \<lfloor>log (real b) x\<rfloor>"
      using x b1 by (simp add: log_mult)
    moreover have "\<lfloor>log (real b) x\<rfloor> = 0" if "1 \<le> x" "x < real b"
    proof -
      have "0 \<le> log (real b) x" using that b1 by simp
      moreover have "log (real b) x < 1" using that b1 x by (simp add: log_less_iff)
      ultimately show ?thesis by linarith
    qed
    moreover have pos: "\<not> (x / real b \<le> 0 \<or> b < 2)" "\<not> (x * real b \<le> 0 \<or> b < 2)"
      "\<not> (x \<le> 0 \<or> b < 2)"
      using x b b1 by (simp_all add: not_le zero_less_divide_iff zero_less_mult_iff)
    ultimately have ?thesis
      unfolding ilog_def by (simp only: pos if_False) (simp add: not_le not_less)
  }
  then show ?thesis by (cases "0 < x \<and> 2 \<le> b") (auto simp: ilog_def)
qed

lemma pw2: "(2::real) powr of_int e = 2 powi e"
  by (simp add: powr_real_of_int')

lemma pw2': "(2::real) powr (of_int e + 1) = 2 powi (e + 1)"
  using pw2 [of "e + 1"] by simp

lemma ilog2_bounds:
  assumes "0 < x"
  shows "2 powi ilog 2 x \<le> x" and "x < 2 powi (ilog 2 x + 1)"
proof -
  have e: "ilog 2 x = \<lfloor>log 2 x\<rfloor>" using assms by (simp add: ilog_def)
  have "2 powr of_int \<lfloor>log 2 x\<rfloor> \<le> 2 powr log 2 x"
    by (rule powr_mono) simp_all
  then show "2 powi ilog 2 x \<le> x" using assms by (simp add: e pw2)
  have "2 powr log 2 x < 2 powr of_int (\<lfloor>log 2 x\<rfloor> + 1)"
    by (rule powr_less_mono) simp_all
  then show "x < 2 powi (ilog 2 x + 1)" using assms by (simp add: e pw2')
qed

lemma ilog2_eqI:
  assumes "2 powi e \<le> x" "x < 2 powi (e + 1)"
  shows "ilog 2 x = e"
proof -
  have x: "0 < x" using assms(1) by (smt (verit) zero_less_power_int)
  have "2 powr of_int e \<le> x" "x < 2 powr of_int (e + 1)"
    using assms by (simp_all only: pw2)
  then have "\<lfloor>log 2 x\<rfloor> = e" using x
    by (subst floor_log_eq_powr_iff) simp_all
  then show ?thesis using x by (simp add: ilog_def)
qed

lemma rne_of_int: "rne (of_int k) = k"
  by (simp add: rne_def)

lemma rne_error: "\<bar>of_int (rne y) - y\<bar> \<le> 1 / 2"
  unfolding rne_def Let_def by (auto; linarith)


lemma fl64_normal:
  assumes "2 powi e \<le> \<bar>x\<bar>" "\<bar>x\<bar> < 2 powi (e + 1)" "- 1022 \<le> e"
  shows "fl64 x = of_int (rne (x / 2 powi (e - 52))) * 2 powi (e - 52)"
proof -
  have "0 < \<bar>x\<bar>" using assms(1) by (smt (verit) zero_less_power_int)
  then have "x \<noteq> 0" by auto
  moreover have "ilog 2 \<bar>x\<bar> = e" using assms(1,2) by (rule ilog2_eqI)
  ultimately show ?thesis using assms(3) by (simp add: fl64_def ulp_exp_def)
qed

lemma fl64_int:
  assumes "\<bar>k\<bar> < 2 ^ 53"
  shows "fl64 (of_int k) = of_int k"
proof (cases "k = 0")
  case True
  then show ?thesis by (simp add: fl64_def)
next
  case False
  define x :: real where "x = \<bar>of_int k\<bar>"
  define e where "e = ilog 2 x"
  have x1: "1 \<le> x" using False by (simp add: x_def)
  then have x0: "0 < x" by simp
  have lo: "2 powi e \<le> x" and hi: "x < 2 powi (e + 1)"
    unfolding e_def using ilog2_bounds [OF x0] by simp_all
  have e0: "0 \<le> e"
  proof (rule ccontr)
    assume "\<not> 0 \<le> e"
    then have "e + 1 \<le> 0" by simp
    then have "(2::real) powi (e + 1) \<le> 2 powi 0" by (intro power_int_increasing) simp_all
    with hi x1 show False by simp
  qed
  have e52: "e \<le> 52"
  proof (rule ccontr)
    assume "\<not> e \<le> 52"
    then have "53 \<le> e" by simp
    then have "(2::real) powi 53 \<le> 2 powi e" by (intro power_int_increasing) simp_all
    moreover have "x < 2 ^ 53" using assms unfolding x_def
      by (metis of_int_abs of_int_less_numeral_power_cancel_iff)
    ultimately show False using lo by simp
  qed
  define n where "n = nat (52 - e)"
  have u: "(2::real) powi (e - 52) = 1 / 2 ^ n"
    using e52 unfolding n_def by (simp add: power_int_def field_simps)
  have "of_int k / (2::real) powi (e - 52) = of_int (k * 2 ^ n)" by (simp add: u)
  then have r: "rne (of_int k / 2 powi (e - 52)) = k * 2 ^ n" by (simp only: rne_of_int)
  have "fl64 (of_int k) = of_int (rne (of_int k / 2 powi (e - 52))) * 2 powi (e - 52)"
    using lo hi e0 unfolding x_def by (intro fl64_normal) simp_all
  also have "\<dots> = of_int (k * 2 ^ n) * 2 powi (e - 52)" by (simp only: r)
  also have "\<dots> = of_int (k * 2 ^ n) * (1 / 2 ^ n)" by (simp only: u)
  also have "\<dots> = of_int k" by simp
  finally show ?thesis .
qed

lemma round64_int:
  assumes "\<bar>k\<bar> < 2 ^ 53"
  shows "round64 (of_int k) = Num (of_int k)"
proof -
  have "\<bar>real_of_int k\<bar> < 2 ^ 53" using assms
    by (metis of_int_abs of_int_less_numeral_power_cancel_iff)
  moreover have "(2::real) ^ 53 < 2 ^ 1024" by simp
  ultimately have "\<not> 2 ^ 1024 \<le> real_of_int k" "\<not> real_of_int k \<le> - (2 ^ 1024)" by linarith+
  then show ?thesis by (simp add: round64_def fl64_int [OF assms])
qed

lemma round64_numeral [simp]:
  "numeral n < (2::int) ^ 53 \<Longrightarrow> round64 (numeral n) = Num (numeral n)"
  using round64_int [of "numeral n"] by simp

lemma round64_0 [simp]: "round64 0 = Num 0"
  using round64_int [of 0] by simp

lemma round64_1 [simp]: "round64 1 = Num 1"
  using round64_int [of 1] by simp

lemma fl64_error:
  assumes "1 \<le> x"
  shows "\<bar>fl64 x - x\<bar> \<le> x / 2 ^ 53"
proof -
  define e where "e = ilog 2 x"
  have x0: "0 < x" using assms by simp
  have lo: "2 powi e \<le> x" and hi: "x < 2 powi (e + 1)"
    unfolding e_def using ilog2_bounds [OF x0] by simp_all
  have e0: "0 \<le> e"
  proof (rule ccontr)
    assume "\<not> 0 \<le> e"
    then have "e + 1 \<le> 0" by simp
    then have "(2::real) powi (e + 1) \<le> 2 powi 0" by (intro power_int_increasing) simp_all
    with hi assms show False by simp
  qed
  define u :: real where "u = 2 powi (e - 52)"
  have u0: "0 < u" unfolding u_def by simp
  have f: "fl64 x = of_int (rne (x / u)) * u"
    unfolding u_def using lo hi e0 x0 by (intro fl64_normal) simp_all
  have "of_int (rne (x / u)) * u - x = (of_int (rne (x / u)) - x / u) * u"
    using u0 by (simp add: field_simps)
  then have "\<bar>fl64 x - x\<bar> = \<bar>of_int (rne (x / u)) - x / u\<bar> * \<bar>u\<bar>"
    by (simp only: f abs_mult)
  also have "\<dots> = \<bar>of_int (rne (x / u)) - x / u\<bar> * u" using u0 by simp
  also have "\<dots> \<le> 1 / 2 * u"
    using rne_error [of "x / u"] u0 by (intro mult_right_mono) simp_all
  also have "\<dots> = 2 powi e / 2 ^ 53"
    unfolding u_def by (simp add: power_int_diff)
  also have "\<dots> \<le> x / 2 ^ 53" using lo by (simp add: divide_right_mono)
  finally show ?thesis .
qed

subsection \<open>Single precision\<close>

lemma rne_mono: "x \<le> y \<Longrightarrow> rne x \<le> rne y"
proof -
  assume xy: "x \<le> y"
  then have f: "\<lfloor>x\<rfloor> \<le> \<lfloor>y\<rfloor>" by (rule floor_mono)
  have bx: "rne x \<le> \<lfloor>x\<rfloor> + 1" and by': "\<lfloor>y\<rfloor> \<le> rne y"
    unfolding rne_def Let_def by auto
  show ?thesis
  proof (cases "\<lfloor>x\<rfloor> = \<lfloor>y\<rfloor>")
    case True
    with xy show ?thesis unfolding rne_def Let_def by (auto; linarith)
  next
    case False
    with f have "\<lfloor>x\<rfloor> + 1 \<le> \<lfloor>y\<rfloor>" by simp
    with bx by' show ?thesis by linarith
  qed
qed

lemma rne_nonneg: "0 \<le> x \<Longrightarrow> 0 \<le> rne x"
  using rne_mono [of 0 x] rne_of_int [of 0] by simp

lemma ulp32_le:
  assumes "x \<noteq> 0" and "\<bar>x\<bar> < 2 powi (e + 24)" and "- 149 \<le> e"
  shows "ulp_exp32 x \<le> e"
proof -
  have x0: "0 < \<bar>x\<bar>" using assms(1) by simp
  have "2 powi ilog 2 \<bar>x\<bar> < (2::real) powi (e + 24)"
    using ilog2_bounds(1) [OF x0] assms(2) by linarith
  have "ilog 2 \<bar>x\<bar> < e + 24"
  proof (rule ccontr)
    assume "\<not> ilog 2 \<bar>x\<bar> < e + 24"
    then have "e + 24 \<le> ilog 2 \<bar>x\<bar>" by simp
    then have "(2::real) powi (e + 24) \<le> 2 powi ilog 2 \<bar>x\<bar>"
      by (intro power_int_increasing) simp_all
    with \<open>2 powi ilog 2 \<bar>x\<bar> < (2::real) powi (e + 24)\<close> show False by linarith
  qed
  with assms(3) show ?thesis by (simp add: ulp_exp32_def)
qed

lemma pw2_split:
  assumes "u \<le> e"
  shows "(2::real) powi e = of_int (2 ^ nat (e - u)) * 2 powi u"
proof -
  define n where "n = nat (e - u)"
  have e: "e = int n + u" using assms by (simp add: n_def)
  have "(2::real) powi (int n + u) = 2 powi int n * 2 powi u" by (rule power_int_add) simp
  then have "(2::real) powi e = 2 ^ n * 2 powi u" by (simp only: e [symmetric] power_int_of_nat)
  then show ?thesis by (simp add: n_def)
qed

lemma fl32_multiple:
  assumes "x = of_int m * 2 powi e" and "ulp_exp32 x \<le> e"
  shows "fl32 x = x"
proof (cases "x = 0")
  case True
  then show ?thesis by (simp add: fl32_def)
next
  case False
  define u where "u = ulp_exp32 x"
  have "x = of_int (m * 2 ^ nat (e - u)) * 2 powi u"
    using pw2_split [of u e] assms unfolding u_def by simp
  then have q: "x / 2 powi u = of_int (m * 2 ^ nat (e - u))" by simp
  have "fl32 x = of_int (rne (x / 2 powi u)) * 2 powi u"
    using False by (simp add: fl32_def u_def)
  also have "\<dots> = of_int (m * 2 ^ nat (e - u)) * 2 powi u" by (simp only: q rne_of_int)
  also have "\<dots> = x / 2 powi u * 2 powi u" by (simp only: q)
  also have "\<dots> = x" by simp
  finally show ?thesis .
qed

lemma fl32_exact:
  assumes "x = of_int m * 2 powi e" and "\<bar>m\<bar> < 2 ^ 24" and "- 149 \<le> e"
  shows "fl32 x = x"
proof (cases "x = 0")
  case True
  then show ?thesis by (simp add: fl32_def)
next
  case False
  have "\<bar>real_of_int m\<bar> < 2 ^ 24" using assms(2)
    by (metis of_int_abs of_int_less_numeral_power_cancel_iff)
  then have "\<bar>x\<bar> < 2 ^ 24 * 2 powi e"
    unfolding assms(1) abs_mult by (simp add: mult_strict_right_mono)
  also have "\<dots> = 2 powi (e + 24)" by (simp add: power_int_add)
  finally have "ulp_exp32 x \<le> e" using False assms(3) by (intro ulp32_le)
  with assms(1) show ?thesis by (rule fl32_multiple)
qed

lemma round32_exact:
  assumes "x = of_int m * 2 powi e" and "\<bar>m\<bar> < 2 ^ 24" and "- 149 \<le> e" and "e \<le> 104"
  shows "round32 x = Num x"
proof -
  have "\<bar>real_of_int m\<bar> < 2 ^ 24" using assms(2)
    by (metis of_int_abs of_int_less_numeral_power_cancel_iff)
  moreover have "(2::real) powi e \<le> 2 powi 104" using assms(4) by (intro power_int_increasing) simp_all
  ultimately have "\<bar>real_of_int m\<bar> * 2 powi e \<le> \<bar>real_of_int m\<bar> * 2 powi 104"
    "\<bar>real_of_int m\<bar> * 2 powi 104 < 2 ^ 24 * 2 powi 104"
    by (simp_all add: mult_left_mono)
  then have "\<bar>real_of_int m\<bar> * 2 powi e < 2 ^ 24 * 2 powi 104" by linarith
  then have "\<bar>x\<bar> < 2 ^ 128" unfolding assms(1) abs_mult by simp
  then have "\<not> 2 ^ 128 \<le> x" "\<not> x \<le> - (2 ^ 128)" by linarith+
  then show ?thesis by (simp add: round32_def fl32_exact [OF assms(1,2,3)])
qed

lemma round32_numeral [simp]:
  "numeral n < (2::int) ^ 24 \<Longrightarrow> round32 (numeral n) = Num (numeral n)"
  using round32_exact [of "numeral n" "numeral n" 0] by simp

lemma round32_half [simp]:
  "numeral n < (2::int) ^ 24 \<Longrightarrow> round32 (numeral n / 2) = Num (numeral n / 2)"
  using round32_exact [of "numeral n / 2" "numeral n" "- 1"] by (simp add: power_int_minus)

lemma round32_0 [simp]: "round32 0 = Num 0"
  using round32_exact [of 0 0 0] by simp

lemma round32_1 [simp]: "round32 1 = Num 1"
  using round32_exact [of 1 1 0] by simp

lemma round32_one_half [simp]: "round32 (1 / 2) = Num (1 / 2)"
  using round32_exact [of "1 / 2" 1 "- 1"] by (simp add: power_int_minus)

lemma fl32_normal:
  assumes "2 powi e \<le> \<bar>x\<bar>" "\<bar>x\<bar> < 2 powi (e + 1)" "- 126 \<le> e"
  shows "fl32 x = of_int (rne (x / 2 powi (e - 23))) * 2 powi (e - 23)"
proof -
  have "0 < \<bar>x\<bar>" using assms(1) by (smt (verit) zero_less_power_int)
  then have "x \<noteq> 0" by auto
  moreover have "ilog 2 \<bar>x\<bar> = e" using assms(1,2) by (rule ilog2_eqI)
  ultimately show ?thesis using assms(3) by (simp add: fl32_def ulp_exp32_def)
qed

lemma round32_below_2_24: "round32 (33554431 / 2) = Num 16777216"
proof -
  have "fl32 (33554431 / 2) = of_int (rne (33554431 / 2 / 2 powi (23 - 23))) * 2 powi (23 - 23)"
    by (rule fl32_normal) simp_all
  also have "rne (33554431 / 2 / 2 powi (23 - 23)) = 16777216"
    by (simp add: rne_def)
  finally have "fl32 (33554431 / 2) = 16777216" by simp
  then show ?thesis by (simp add: round32_def)
qed

lemma round32_above_2_24: "round32 16777217 = Num 16777216"
proof -
  have "fl32 16777217 = of_int (rne (16777217 / 2 powi (24 - 23))) * 2 powi (24 - 23)"
    by (rule fl32_normal) simp_all
  also have "rne (16777217 / 2 powi (24 - 23)) = 8388608"
    by (simp add: rne_def)
  finally have "fl32 16777217 = 16777216" by simp
  then show ?thesis by (simp add: round32_def)
qed

text \<open>
  A value is representable when it is an integer of less than 24 bits times a power of
  two that is at least the spacing of the subnormals. Rounding yields such a value, and
  does not step over one: a representable lower bound of \<open>y\<close> is a lower bound of the
  rounded \<open>y\<close>.
\<close>

lemma fl32_representable:
  "\<exists>m e. fl32 x = of_int m * 2 powi e \<and> \<bar>m\<bar> < 2 ^ 24 \<and> - 149 \<le> e"
proof (cases "x = 0")
  case True
  have "fl32 x = of_int 0 * 2 powi 0 \<and> \<bar>0::int\<bar> < 2 ^ 24 \<and> (- 149::int) \<le> 0"
    using True by (simp add: fl32_def)
  then show ?thesis by blast
next
  case False
  define u where "u = ulp_exp32 x"
  define m where "m = rne (x / 2 powi u)"
  have f: "fl32 x = of_int m * 2 powi u" using False by (simp add: fl32_def u_def m_def)
  have u149: "- 149 \<le> u" by (simp add: u_def ulp_exp32_def)
  have x0: "0 < \<bar>x\<bar>" using False by simp
  have "ilog 2 \<bar>x\<bar> + 1 \<le> u + 24" by (simp add: u_def ulp_exp32_def)
  then have "(2::real) powi (ilog 2 \<bar>x\<bar> + 1) \<le> 2 powi (u + 24)"
    by (intro power_int_increasing) simp_all
  with ilog2_bounds(2) [OF x0] have "\<bar>x\<bar> < 2 powi (u + 24)" by linarith
  then have "\<bar>x\<bar> < 2 ^ 24 * 2 powi u" by (simp add: power_int_add)
  then have "\<bar>x\<bar> / 2 powi u < 2 ^ 24" by (simp add: field_simps)
  then have q: "x / 2 powi u \<le> of_int (2 ^ 24)" "of_int (- (2 ^ 24)) \<le> x / 2 powi u"
    by (simp_all add: abs_less_iff field_simps)
  from rne_mono [OF q(1)] rne_mono [OF q(2)]
  have mb: "m \<le> 2 ^ 24" "- (2 ^ 24) \<le> m" unfolding m_def by (simp_all only: rne_of_int)
  show ?thesis
  proof (cases "\<bar>m\<bar> < 2 ^ 24")
    case True
    with f u149 show ?thesis by blast
  next
    case False
    with mb have "m = 2 ^ 24 \<or> m = - (2 ^ 24)" by linarith
    then have "fl32 x = of_int (m div 2) * 2 powi (u + 1) \<and> \<bar>m div 2\<bar> < 2 ^ 24"
      unfolding f by (auto simp: power_int_add)
    with u149 have "fl32 x = of_int (m div 2) * 2 powi (u + 1) \<and> \<bar>m div 2\<bar> < 2 ^ 24 \<and> - 149 \<le> u + 1"
      by simp
    then show ?thesis by blast
  qed
qed

lemma fl32_nonneg: "0 \<le> y \<Longrightarrow> 0 \<le> fl32 y"
  by (simp add: fl32_def rne_nonneg)

lemma fl32_lower:
  assumes a: "a = of_int m * 2 powi e" "\<bar>m\<bar> < 2 ^ 24" "- 149 \<le> e" and ay: "a \<le> y"
  shows "a \<le> fl32 y"
proof (cases "y = 0")
  case True
  with ay show ?thesis by (simp add: fl32_def)
next
  case y0: False
  define v where "v = ulp_exp32 y"
  have fy: "fl32 y = of_int (rne (y / 2 powi v)) * 2 powi v"
    using y0 by (simp add: fl32_def v_def)
  have mr: "\<bar>real_of_int m\<bar> < 2 ^ 24" using a(2)
    by (metis of_int_abs of_int_less_numeral_power_cancel_iff)
  have through: "a \<le> fl32 y" if "a / 2 powi v = of_int k" for k
  proof -
    have "a / 2 powi v \<le> y / 2 powi v" using ay by (simp add: divide_right_mono)
    then have "rne (a / 2 powi v) \<le> rne (y / 2 powi v)" by (rule rne_mono)
    then have "k \<le> rne (y / 2 powi v)" by (simp only: that rne_of_int)
    then have "of_int k * (2::real) powi v \<le> of_int (rne (y / 2 powi v)) * 2 powi v"
      by (intro mult_right_mono) simp_all
    moreover have "of_int k * (2::real) powi v = a" using that by (simp add: field_simps)
    ultimately show ?thesis by (simp only: fy)
  qed
  show ?thesis
  proof (cases "v \<le> e")
    case True
    have "a = of_int (m * 2 ^ nat (e - v)) * 2 powi v"
      using pw2_split [OF True] a(1) by simp
    then have "a / 2 powi v = of_int (m * 2 ^ nat (e - v))" by simp
    then show ?thesis by (rule through)
  next
    case False
    then have ev: "e + 1 \<le> v" by simp
    show ?thesis
    proof (cases "0 \<le> y")
      case True
      then have ypos: "0 < y" using y0 by simp
      from ev a(3) have "- 149 < v" by simp
      then have v: "v = ilog 2 \<bar>y\<bar> - 23" by (simp add: v_def ulp_exp32_def)
      have "2 powi (v + 23) \<le> y"
        using ilog2_bounds(1) [of "\<bar>y\<bar>"] ypos by (simp add: v)
      have b: "(2::real) powi (v + 23) / 2 powi v = of_int (2 ^ 23)"
        by (simp add: power_int_add)
      have "a \<le> \<bar>real_of_int m\<bar> * 2 powi e" unfolding a(1)
        by (intro mult_right_mono) simp_all
      also have "\<dots> \<le> 2 ^ 24 * 2 powi e" using mr by (intro mult_right_mono) simp_all
      also have "\<dots> = 2 powi (e + 24)" by (simp add: power_int_add)
      also have "\<dots> \<le> 2 powi (v + 23)" using ev by (intro power_int_increasing) simp_all
      finally have ab: "a \<le> 2 powi (v + 23)" .
      have "2 powi (v + 23) / 2 powi v \<le> y / 2 powi v"
        using \<open>2 powi (v + 23) \<le> y\<close> by (simp add: divide_right_mono)
      then have "rne (2 powi (v + 23) / 2 powi v) \<le> rne (y / 2 powi v)" by (rule rne_mono)
      then have "2 ^ 23 \<le> rne (y / 2 powi v)" by (simp only: b rne_of_int)
      then have "of_int (2 ^ 23) * (2::real) powi v \<le> of_int (rne (y / 2 powi v)) * 2 powi v"
        by (intro mult_right_mono) simp_all
      then have "2 powi (v + 23) \<le> fl32 y" by (simp add: fy power_int_add)
      with ab show ?thesis by linarith
    next
      case False
      then have yneg: "y < 0" by simp
      with ay have aneg: "a < 0" by simp
      then have a0: "a \<noteq> 0" by simp
      have "\<bar>a\<bar> = \<bar>real_of_int m\<bar> * 2 powi e" unfolding a(1) abs_mult by simp
      also have "\<dots> < 2 ^ 24 * 2 powi e" using mr by (intro mult_strict_right_mono) simp_all
      also have "\<dots> = 2 powi (e + 24)" by (simp add: power_int_add)
      finally have al: "\<bar>a\<bar> < 2 powi (e + 24)" .
      have "\<bar>y\<bar> \<le> \<bar>a\<bar>" using ay yneg aneg by simp
      with al have "\<bar>y\<bar> < 2 powi (e + 24)" by linarith
      with y0 a(3) have "v \<le> e" unfolding v_def by (intro ulp32_le)
      with ev show ?thesis by simp
    qed
  qed
qed

lemma f32_add_grows:
  assumes "round32 c = Num a" and "0 \<le> w"
  shows "js_le (Num a) (f32_add (Num a) (Num w))"
proof -
  from assms(1) have a: "a = fl32 c" and lo: "\<not> a \<le> - (2 ^ 128)"
    by (auto simp: round32_def Let_def split: if_splits)
  from fl32_representable [of c] obtain m e where
    r: "a = of_int m * 2 powi e" "\<bar>m\<bar> < 2 ^ 24" "- 149 \<le> e" unfolding a by blast
  have "a \<le> a + w" using assms(2) by simp
  with r have "a \<le> fl32 (a + w)" by (rule fl32_lower)
  with lo show ?thesis by (simp add: round32_def Let_def js_le_def)
qed

subsection \<open>Tensor operations\<close>

lemma length_tab3 [simp]: "length (tab3 a b c f) = a * b * c"
  by (simp add: tab3_def)

lemma tab3_nth: "n < a * b * c \<Longrightarrow> tab3 a b c f ! n = f (n div (b * c)) (n div c mod b) (n mod c)"
  by (simp add: tab3_def)

lemma idx3_lt:
  assumes "i < a" "j < b" "k < (c::nat)"
  shows "(i * b + j) * c + k < a * b * c"
proof -
  have "i * b + j < a * b"
  proof -
    have "i * b + j < i * b + b" using assms(2) by simp
    also have "\<dots> = Suc i * b" by simp
    also have "\<dots> \<le> a * b" using assms(1) by (intro mult_le_mono1) simp
    finally show ?thesis .
  qed
  then have "Suc (i * b + j) \<le> a * b" by simp
  then have "Suc (i * b + j) * c \<le> a * b * c" by (rule mult_le_mono1)
  moreover have "(i * b + j) * c + k < Suc (i * b + j) * c" using assms(3) by simp
  ultimately show ?thesis by linarith
qed

lemma idx3_div:
  assumes "j < b" "k < (c::nat)"
  shows "((i * b + j) * c + k) div (b * c) = i"
    and "((i * b + j) * c + k) div c mod b = j"
    and "((i * b + j) * c + k) mod c = k"
proof -
  have d: "((i * b + j) * c + k) div c = i * b + j" using assms(2) by simp
  show "((i * b + j) * c + k) div c mod b = j" using assms(1) by (simp add: d)
  show "((i * b + j) * c + k) mod c = k" using assms(2) by simp
  have "((i * b + j) * c + k) div (b * c) = ((i * b + j) * c + k) div (c * b)"
    by (simp only: mult.commute)
  also have "\<dots> = ((i * b + j) * c + k) div c div b"
    by (rule div_mult2_eq)
  also have "\<dots> = i" using assms(1) by (simp add: d)
  finally show "((i * b + j) * c + k) div (b * c) = i" .
qed

lemma tab3_at:
  assumes "i < a" "j < b" "k < c"
  shows "tab3 a b c f ! ((i * b + j) * c + k) = f i j k"
  using idx3_lt [OF assms] by (simp add: tab3_nth idx3_div assms)

lemma slice_last_one:
  assumes "shape t = [b, n, a]" "k < a"
  shows "slice_last t k 1 = Inr \<lparr>shape = [b, n, 1], vals = map (\<lambda>j. vals t ! (j * a + k)) [0..<b * n]\<rparr>"
proof -
  have "tab3 b n (Suc 0) (\<lambda>i j l. vals t ! ((i * n + j) * a + k + l))
          = map (\<lambda>j. vals t ! (j * a + k)) [0..<b * n]"
    by (rule nth_equalityI) (simp_all add: tab3_nth)
  then show ?thesis using assms by (simp add: slice_last_def)
qed

lemma slice_last_rest:
  assumes "shape t = [b, n, a]" "k \<le> a"
  shows "slice_last t k (- 1) = Inr \<lparr>shape = [b, n, a - k],
           vals = tab3 b n (a - k) (\<lambda>i j l. vals t ! ((i * n + j) * a + k + l))\<rparr>"
  using assms by (simp add: slice_last_def Let_def nat_diff_distrib')

lemma map2_upt: "map2 f (map g [0..<n]) (map h [0..<n]) = map (\<lambda>j. f (g j) (h j)) [0..<n]"
  by (rule nth_equalityI) simp_all

subsection \<open>Sequencing\<close>

lemma bnd_Inr:
  assumes "bnd m f w = (Inr y, w')"
  obtains x w1 where "m w = (Inr x, w1)" "f x w1 = (Inr y, w')"
  using assms by (auto simp: bnd_def split: prod.splits sum.splits)

lemma tf_op_Inr:
  assumes "tf_op r w = (Inr h, w')"
  obtains t where "r = Inr t" "track t w = (Inr h, w')"
  using assms by (auto simp: tf_op_def throw_def split: sum.splits)

lemma track_result: "track t w = (Inr h, w') \<Longrightarrow> snd h = t"
  by (auto simp: track_def Let_def)

lemma reshape_Inr:
  assumes "reshape xs ds w = (Inr h, w')"
  shows "reshape_infer xs ds = Inr (snd h)"
  using assms unfolding reshape_def tidy_def bnd_def tf_op_def throw_def track_def Let_def
  by (cases "reshape_infer xs ds") (auto split: prod.splits sum.splits)

lemma detect_Inr:
  assumes "detect src mdl cb w = (Inr u, w')"
  obtains modelWidth modelHeight input xRatio yRatio execute res transRes boxes scores
      landmarks nms boxes_g scores_g landmarks_g landmarks_data
      w0 w1 w2 w3 w4 w5 w6 w7 w8 w9 w10 w12 w13 w14 w15
  where "take 2 (drop 1 (inputShape mdl)) = [modelWidth, modelHeight]"
    and "startScope w = (Inr (), w0)"
    and "preprocess src modelWidth modelHeight w0 = (Inr (input, xRatio, yRatio), w1)"
    and "net mdl = Some execute"
    and "tf_op (execute (snd input)) w1 = (Inr res, w2)"
    and "tf_op (transpose021 (snd res)) w2 = (Inr transRes, w3)"
    and "boxes_of (snd transRes) w3 = (Inr boxes, w4)"
    and "scores_of (snd transRes) w4 = (Inr scores, w5)"
    and "landmarks_of (snd transRes) w5 = (Inr landmarks, w6)"
    and "tf_op (nonMaxSuppression (snd boxes) (snd scores) 10 (round64 (45 / 100)) (round64 (3 / 10))) w6 = (Inr nms, w7)"
    and "tf_op (gather0 (snd boxes) (indices (snd nms))) w7 = (Inr boxes_g, w8)"
    and "tf_op (gather0 (snd scores) (indices (snd nms))) w8 = (Inr scores_g, w9)"
    and "tf_op (gather0 (snd landmarks) (indices (snd nms))) w9 = (Inr landmarks_g, w10)"
    and "reshape (vals (snd landmarks_g)) [3, 17] w10 = (Inr landmarks_data, w12)"
    and "emit (RenderBoxes (snd landmarks_data) (vals (snd boxes_g)) (vals (snd scores_g))
                 xRatio yRatio) w12 = (Inr (), w13)"
    and "dispose [fst res, fst transRes, fst boxes, fst scores, fst nms] w13 = (Inr (), w14)"
    and "cb w14 = (Inr (), w15)"
    and "endScope w15 = (Inr u, w')"
proof -
  show ?thesis
    apply (insert assms)
    unfolding detect_def Let_def
    apply (erule bnd_Inr)+
    apply (simp split: list.splits option.splits prod.splits add: throw_def)
    apply (erule bnd_Inr)+
    apply (simp split: list.splits option.splits prod.splits add: throw_def)
    apply (erule bnd_Inr)+
    apply (rule that)
    apply (simp; fail)+
    done
qed

subsection \<open>Computations that return\<close>

lemma gives_bnd:
  assumes "gives n n1 m P" and "\<And>x. P x \<Longrightarrow> gives n1 n2 (f x) Q"
  shows "gives n n2 (bnd m f) Q"
  unfolding gives_def
proof (intro allI impI)
  fix w :: world
  assume d: "length (scopes (eng w)) = n"
  with assms(1) obtain x w1 where 1: "m w = (Inr x, w1)" "P x" "length (scopes (eng w1)) = n1"
    unfolding gives_def by blast
  from assms(2) [OF 1(2)] 1(3) obtain y w2 where "f x w1 = (Inr y, w2)" "Q y"
    "length (scopes (eng w2)) = n2"
    unfolding gives_def by blast
  with 1(1) show "\<exists>x w'. bnd m f w = (Inr x, w') \<and> Q x \<and> length (scopes (eng w')) = n2"
    by (simp add: bnd_def)
qed

lemma gives_weaken: "gives n n' m P \<Longrightarrow> (\<And>x. P x \<Longrightarrow> Q x) \<Longrightarrow> gives n n' m Q"
  unfolding gives_def by blast

lemma gives_track: "gives n n (track t) (\<lambda>h. snd h = t)"
  unfolding gives_def track_def Let_def by (auto split: list.splits)

lemma gives_tf_op: "r = Inr t \<Longrightarrow> gives n n (tf_op r) (\<lambda>h. snd h = t)"
  by (simp add: tf_op_def gives_track)

lemma gives_ret: "P x \<Longrightarrow> gives n n (ret x) P"
  unfolding gives_def ret_def by simp

lemma gives_emit: "gives n n (emit ev) (\<lambda>_. True)"
  unfolding gives_def emit_def by simp

lemma gives_dispose: "gives n n (dispose xs) (\<lambda>_. True)"
  unfolding gives_def dispose_def by simp

lemma gives_startScope: "gives n (Suc n) startScope (\<lambda>_. True)"
  unfolding gives_def startScope_def open_scope_def by simp

lemma gives_endScope: "gives (Suc n) n endScope (\<lambda>_. True)"
  unfolding gives_def endScope_def close_scope_def
  by (auto split: list.splits)

lemma gives_raf: "gives n n requestAnimationFrame (\<lambda>_. True)"
  unfolding gives_def requestAnimationFrame_def by simp

lemma gives_tidy:
  assumes "gives (Suc n) (Suc n) m P"
  shows "gives n n (tidy kept m) P"
  unfolding gives_def
proof (intro allI impI)
  fix w :: world
  assume d: "length (scopes (eng w)) = n"
  then have "length (scopes (eng (w\<lparr>eng := open_scope (eng w)\<rparr>))) = Suc n"
    by (simp add: open_scope_def)
  with assms obtain x w1 where 1: "m (w\<lparr>eng := open_scope (eng w)\<rparr>) = (Inr x, w1)" "P x"
    "length (scopes (eng w1)) = Suc n"
    unfolding gives_def by blast
  from 1(3) have "length (scopes (close_scope (kept x) (eng w1))) = n"
    by (cases "scopes (eng w1)") (auto simp: close_scope_def split: list.splits)
  with 1(1,2) show "\<exists>x w'. tidy kept m w = (Inr x, w') \<and> P x \<and> length (scopes (eng w')) = n"
    by (simp add: tidy_def)
qed

lemma concat2_four:
  assumes "shape t0 = [b, n, 1]" "shape t1 = [b, n, 1]" "shape t2 = [b, n, 1]" "shape t3 = [b, n, 1]"
  shows "\<exists>t. concat2 [t0, t1, t2, t3] = Inr t \<and> shape t = [b, n, 4] \<and>
           length (vals t) = b * n * 4 \<and>
           (\<forall>j < b * n. vals t ! (4 * j) = vals t0 ! j \<and> vals t ! (4 * j + 1) = vals t1 ! j \<and>
                        vals t ! (4 * j + 2) = vals t2 ! j \<and> vals t ! (4 * j + 3) = vals t3 ! j)"
proof -
  let ?f = "\<lambda>i j k. vals ([t0, t1, t2, t3] ! (k div 1)) ! ((i * n + j) * 1 + k mod 1)"
  have c: "concat2 [t0, t1, t2, t3] = Inr \<lparr>shape = [b, n, 4], vals = tab3 b n 4 ?f\<rparr>"
    using assms by (simp add: concat2_def) (simp add: eval_nat_numeral)
  have "tab3 b n 4 ?f ! (4 * j + k) = vals ([t0, t1, t2, t3] ! k) ! j" if "j < b * n" "k < 4" for j k
  proof -
    have lt: "4 * j + k < b * n * 4" using that by simp
    have "(4 * j + k) div 4 = j" "(4 * j + k) mod 4 = k" using that by simp_all
    moreover have "(4 * j + k) div (n * 4) = j div n"
    proof -
      have "(4 * j + k) div (n * 4) = (4 * j + k) div (4 * n)" by (simp only: mult.commute)
      also have "\<dots> = (4 * j + k) div 4 div n" by (rule div_mult2_eq)
      also have "\<dots> = j div n" using that by simp
      finally show ?thesis .
    qed
    ultimately show ?thesis using lt by (simp add: tab3_nth)
  qed
  from this [of _ 0] this [of _ 1] this [of _ 2] this [of _ 3] c show ?thesis by simp
qed


lemma gives_bnd_op:
  assumes "r = Inr (t :: 'a tensor)" and "\<And>i. gives n n' (f (i, t)) Q"
  shows "gives n n' (bnd (tf_op r) f) Q"
proof (rule gives_bnd [OF gives_tf_op [OF assms(1)]])
  fix x :: "nat \<times> 'a tensor"
  assume "snd x = t"
  then have "x = (fst x, t)" by (cases x) simp
  then show "gives n n' (f x) Q" using assms(2) [of "fst x"] by simp
qed

lemma gives_bnd_track:
  assumes "\<And>i. gives n n' (f (i, t)) Q"
  shows "gives n n' (bnd (track t) f) Q"
  using gives_bnd_op [of "Inr t" t n n' f Q] assms by (simp add: tf_op_def)

lemma gives_track_P: "P t \<Longrightarrow> gives n n (track t) (\<lambda>h. P (snd h))"
  by (rule gives_weaken [OF gives_track]) simp

lemma boxes_of_gives:
  assumes sh: "shape tr = [b, n, a]" and a: "4 \<le> a"
  shows "gives d d (boxes_of tr)
           (\<lambda>h. shape (snd h) = filter (\<lambda>x. x \<noteq> 1) [b, n, 4] \<and>
                length (vals (snd h)) = b * n * 4 \<and>
                (\<forall>j < b * n.
                   box_at (snd h) j =
                     (f32_sub (vals tr ! (j * a + 1)) (f32_div (vals tr ! (j * a + 3)) (Num 2)),
                      f32_sub (vals tr ! (j * a)) (f32_div (vals tr ! (j * a + 2)) (Num 2)),
                      f32_add (f32_sub (vals tr ! (j * a + 1)) (f32_div (vals tr ! (j * a + 3)) (Num 2)))
                        (vals tr ! (j * a + 3)),
                      f32_add (f32_sub (vals tr ! (j * a)) (f32_div (vals tr ! (j * a + 2)) (Num 2)))
                        (vals tr ! (j * a + 2)))))"
proof -
  define col where "col k = \<lparr>shape = [b, n, 1], vals = map (\<lambda>j. vals tr ! (j * a + k)) [0..<b * n]\<rparr>" for k
  have sl: "slice_last tr k 1 = Inr (col k)" if "k < a" for k
    unfolding col_def using sh that by (rule slice_last_one)
  define x1 where "x1 = binop f32_sub (col 0) (div_scalar32 (col 2) (Num 2))"
  define y1 where "y1 = binop f32_sub (col 1) (div_scalar32 (col 3) (Num 2))"
  define y2 where "y2 = binop f32_add y1 (col 3)"
  define x2 where "x2 = binop f32_add x1 (col 2)"
  have shapes: "shape y1 = [b, n, 1]" "shape x1 = [b, n, 1]" "shape y2 = [b, n, 1]" "shape x2 = [b, n, 1]"
    by (simp_all add: y1_def x1_def y2_def x2_def binop_def col_def)
  have vx1: "vals x1 = map (\<lambda>j. f32_sub (vals tr ! (j * a)) (f32_div (vals tr ! (j * a + 2)) (Num 2)))
                         [0..<b * n]"
    by (simp add: x1_def binop_def div_scalar32_def col_def map2_upt o_def)
  have vy1: "vals y1 = map (\<lambda>j. f32_sub (vals tr ! (j * a + 1)) (f32_div (vals tr ! (j * a + 3)) (Num 2)))
                         [0..<b * n]"
    by (simp add: y1_def binop_def div_scalar32_def col_def map2_upt o_def)
  have vy2: "vals y2 = map (\<lambda>j. f32_add (f32_sub (vals tr ! (j * a + 1))
                                           (f32_div (vals tr ! (j * a + 3)) (Num 2)))
                                  (vals tr ! (j * a + 3))) [0..<b * n]"
    by (simp add: y2_def binop_def vy1 col_def map2_upt)
  have vx2: "vals x2 = map (\<lambda>j. f32_add (f32_sub (vals tr ! (j * a))
                                           (f32_div (vals tr ! (j * a + 2)) (Num 2)))
                                  (vals tr ! (j * a + 2))) [0..<b * n]"
    by (simp add: x2_def binop_def vx1 col_def map2_upt)
  from concat2_four [OF shapes] obtain c where c: "concat2 [y1, x1, y2, x2] = Inr c"
    "shape c = [b, n, 4]" "length (vals c) = b * n * 4"
    "\<forall>j < b * n. vals c ! (4 * j) = vals y1 ! j \<and> vals c ! (4 * j + 1) = vals x1 ! j \<and>
                  vals c ! (4 * j + 2) = vals y2 ! j \<and> vals c ! (4 * j + 3) = vals x2 ! j"
    by blast
  have fin: "shape (squeeze c) = filter (\<lambda>x. x \<noteq> 1) [b, n, 4] \<and>
             length (vals (squeeze c)) = b * n * 4 \<and>
             (\<forall>j < b * n.
                box_at (squeeze c) j =
                     (f32_sub (vals tr ! (j * a + 1)) (f32_div (vals tr ! (j * a + 3)) (Num 2)),
                      f32_sub (vals tr ! (j * a)) (f32_div (vals tr ! (j * a + 2)) (Num 2)),
                      f32_add (f32_sub (vals tr ! (j * a + 1)) (f32_div (vals tr ! (j * a + 3)) (Num 2)))
                        (vals tr ! (j * a + 3)),
                      f32_add (f32_sub (vals tr ! (j * a)) (f32_div (vals tr ! (j * a + 2)) (Num 2)))
                        (vals tr ! (j * a + 2))))"
    using c(2,3,4) by (simp add: squeeze_def box_at_def vx1 vy1 vx2 vy2)
  show ?thesis
    unfolding boxes_of_def
    apply (rule gives_tidy)
    apply (rule gives_bnd_op [OF sl], use a in simp, simp only: snd_conv)
    apply (rule gives_bnd_op [OF sl], use a in simp, simp only: snd_conv)
    apply (rule gives_bnd_op [OF sl], use a in simp, simp only: snd_conv)
    apply (rule gives_bnd_track, simp only: snd_conv)
    apply (rule gives_bnd_track, simp only: snd_conv x1_def [symmetric])
    apply (rule gives_bnd_op [OF sl], use a in simp, simp only: snd_conv)
    apply (rule gives_bnd_track, simp only: snd_conv)
    apply (rule gives_bnd_track, simp only: snd_conv y1_def [symmetric])
    apply (rule gives_bnd_track, simp only: snd_conv y2_def [symmetric])
    apply (rule gives_bnd_track, simp only: snd_conv x2_def [symmetric])
    apply (rule gives_bnd_op [OF c(1)], simp only: snd_conv)
    apply (rule gives_track_P [where P = "\<lambda>t. shape t = filter (\<lambda>x. x \<noteq> 1) [b, n, 4] \<and>
                length (vals t) = b * n * 4 \<and>
                (\<forall>j < b * n.
                   box_at t j =
                     (f32_sub (vals tr ! (j * a + 1)) (f32_div (vals tr ! (j * a + 3)) (Num 2)),
                      f32_sub (vals tr ! (j * a)) (f32_div (vals tr ! (j * a + 2)) (Num 2)),
                      f32_add (f32_sub (vals tr ! (j * a + 1)) (f32_div (vals tr ! (j * a + 3)) (Num 2)))
                        (vals tr ! (j * a + 3)),
                      f32_add (f32_sub (vals tr ! (j * a)) (f32_div (vals tr ! (j * a + 2)) (Num 2)))
                        (vals tr ! (j * a + 2))))"])
    apply (rule fin)
    done
qed


lemma scores_of_gives:
  assumes sh: "shape tr = [b, n, a]" and a: "5 \<le> a"
  shows "gives d d (scores_of tr)
           (\<lambda>h. snd h = \<lparr>shape = filter (\<lambda>x. x \<noteq> 1) [b, n, 1],
                          vals = map (\<lambda>j. vals tr ! (j * a + 4)) [0..<b * n]\<rparr>)"
proof -
  have sl: "slice_last tr 4 1
              = Inr \<lparr>shape = [b, n, 1], vals = map (\<lambda>j. vals tr ! (j * a + 4)) [0..<b * n]\<rparr>"
    using sh by (rule slice_last_one) (use a in simp)
  show ?thesis
    unfolding scores_of_def
    apply (rule gives_tidy)
    apply (rule gives_bnd_op [OF sl], simp only: snd_conv)
    apply (rule gives_weaken [OF gives_track])
    apply (simp add: squeeze_def)
    done
qed

lemma landmarks_of_gives:
  assumes sh: "shape tr = [b, n, a]" and a: "5 \<le> a"
  shows "gives d d (landmarks_of tr)
           (\<lambda>h. snd h = \<lparr>shape = filter (\<lambda>x. x \<noteq> 1) [b, n, a - 5],
                          vals = tab3 b n (a - 5) (\<lambda>i j l. vals tr ! ((i * n + j) * a + 5 + l))\<rparr>)"
proof -
  note sl = slice_last_rest [OF sh a]
  show ?thesis
    unfolding landmarks_of_def
    apply (rule gives_tidy)
    apply (rule gives_bnd_op [OF sl], simp only: snd_conv)
    apply (rule gives_weaken [OF gives_track])
    apply (simp add: squeeze_def)
    done
qed

subsection \<open>The scheduler's tick\<close>

lemma detectFrame_closed:
  "videoWidth (vidSource t) = 0 \<Longrightarrow> srcObject (vidSource t) = None \<Longrightarrow>
   detectFrame mdl cv t (s, w) =
     (Inr (), s, w\<lparr>events := events w @ [ClearRect 0 0 (cwidth cv) (cheight cv)]\<rparr>)"
  by (simp add: detectFrame_def)

lemma detectFrame_open:
  assumes "\<not> (videoWidth (vidSource t) = 0 \<and> srcObject (vidSource t) = None)"
  shows "fst (detectFrame mdl cv t (s, w)) = fst (detect (vidSource t) mdl requestAnimationFrame w)"
    and "eng (snd (snd (detectFrame mdl cv t (s, w))))
           = eng (snd (detect (vidSource t) mdl requestAnimationFrame w))"
    and "rafQueue (snd (snd (detectFrame mdl cv t (s, w))))
           = rafQueue (snd (detect (vidSource t) mdl requestAnimationFrame w))"
  using assms
  by (auto simp: detectFrame_def Let_def split: prod.splits sum.splits)

lemma frames_idle: "rafQueue w = 0 \<Longrightarrow> frames mdl cv ts (s, w) = (s, w)"
  by (cases ts) simp_all

text \<open>
  C7. A tick that finds the video element with zero width and no stream clears the whole
  canvas and does nothing else: the accumulators, the engine and the queue of frame
  requests are as before, so no detection has run and no further tick is requested; with
  no request pending, the loop of ticks has ended, whatever the source does later.
  Conversely, a tick that finds a frame width or a stream runs the detection: it fails
  exactly when \<^verbatim>\<open>detect\<close> fails, and the engine and the queue of frame requests are
  those \<^verbatim>\<open>detect\<close> leaves behind.
\<close>

theorem closed_source_ends_the_loop:
  "(videoWidth (vidSource t) = 0 \<and> srcObject (vidSource t) = None \<longrightarrow>
      detectFrame mdl cv t (s, w)
        = (Inr (), s, w\<lparr>events := events w @ [ClearRect 0 0 (cwidth cv) (cheight cv)]\<rparr>) \<and>
      (rafQueue w = 0 \<longrightarrow>
         frames mdl cv ts (snd (detectFrame mdl cv t (s, w))) = snd (detectFrame mdl cv t (s, w)))) \<and>
   (\<not> (videoWidth (vidSource t) = 0 \<and> srcObject (vidSource t) = None) \<longrightarrow>
      fst (detectFrame mdl cv t (s, w)) = fst (detect (vidSource t) mdl requestAnimationFrame w) \<and>
      eng (snd (snd (detectFrame mdl cv t (s, w))))
        = eng (snd (detect (vidSource t) mdl requestAnimationFrame w)) \<and>
      rafQueue (snd (snd (detectFrame mdl cv t (s, w))))
        = rafQueue (snd (detect (vidSource t) mdl requestAnimationFrame w)))"
proof (intro conjI impI)
  assume c: "videoWidth (vidSource t) = 0 \<and> srcObject (vidSource t) = None"
  then show eq: "detectFrame mdl cv t (s, w)
        = (Inr (), s, w\<lparr>events := events w @ [ClearRect 0 0 (cwidth cv) (cheight cv)]\<rparr>)"
    by (simp add: detectFrame_closed)
  assume "rafQueue w = 0"
  then show "frames mdl cv ts (snd (detectFrame mdl cv t (s, w))) = snd (detectFrame mdl cv t (s, w))"
    by (simp add: eq frames_idle)
next
  assume o: "\<not> (videoWidth (vidSource t) = 0 \<and> srcObject (vidSource t) = None)"
  then show "fst (detectFrame mdl cv t (s, w)) = fst (detect (vidSource t) mdl requestAnimationFrame w)"
    by (rule detectFrame_open)
  from o show "eng (snd (snd (detectFrame mdl cv t (s, w))))
        = eng (snd (detect (vidSource t) mdl requestAnimationFrame w))"
    by (rule detectFrame_open)
  from o show "rafQueue (snd (snd (detectFrame mdl cv t (s, w))))
        = rafQueue (snd (detect (vidSource t) mdl requestAnimationFrame w))"
    by (rule detectFrame_open)
qed

theorem closed_source_ends_the_loop_witness:
  "videoWidth (vidSource tick_closed) = 0 \<and> srcObject (vidSource tick_closed) = None \<and>
   rafQueue w_init = 0 \<and>
   detectFrame model_ex canvas_ex tick_closed (sched_ex, w_init)
     = (Inr (), sched_ex, w_init\<lparr>events := [ClearRect 0 0 640 640]\<rparr>) \<and>
   frames model_ex canvas_ex [tick_ex, tick_ex]
       (snd (detectFrame model_ex canvas_ex tick_closed (sched_ex, w_init)))
     = (sched_ex, w_init\<lparr>events := [ClearRect 0 0 640 640]\<rparr>) \<and>
   videoWidth (vidSource tick_ex) = 2 \<and>
   fst (detectFrame model_ex canvas_ex tick_ex (sched_ex, w_init))
     = fst (detect frame_ex model_ex requestAnimationFrame w_init) \<and>
   eng (snd (snd (detectFrame model_ex canvas_ex tick_ex (sched_ex, w_init))))
     = eng (snd (detect frame_ex model_ex requestAnimationFrame w_init)) \<and>
   rafQueue (snd (snd (detectFrame model_ex canvas_ex tick_ex (sched_ex, w_init))))
     = rafQueue (snd (detect frame_ex model_ex requestAnimationFrame w_init))"
proof -
  have c: "videoWidth (vidSource tick_closed) = 0 \<and> srcObject (vidSource tick_closed) = None"
    by (simp add: tick_closed_def closed_source_def)
  have q: "rafQueue w_init = 0" by (simp add: w_init_def)
  have o: "\<not> (videoWidth (vidSource tick_ex) = 0 \<and> srcObject (vidSource tick_ex) = None)"
    by (simp add: tick_ex_def frame_ex_def)
  have v: "vidSource tick_ex = frame_ex" by (simp add: tick_ex_def)
  note a = closed_source_ends_the_loop
    [of tick_closed model_ex canvas_ex sched_ex w_init "[tick_ex, tick_ex]"]
  note b = closed_source_ends_the_loop [of tick_ex model_ex canvas_ex sched_ex w_init "[]"]
  from a c q have
    "detectFrame model_ex canvas_ex tick_closed (sched_ex, w_init)
       = (Inr (), sched_ex, w_init\<lparr>events := events w_init
            @ [ClearRect 0 0 (cwidth canvas_ex) (cheight canvas_ex)]\<rparr>)"
    "frames model_ex canvas_ex [tick_ex, tick_ex]
         (snd (detectFrame model_ex canvas_ex tick_closed (sched_ex, w_init)))
       = snd (detectFrame model_ex canvas_ex tick_closed (sched_ex, w_init))"
    by blast+
  moreover have "events w_init = []" "cwidth canvas_ex = 640" "cheight canvas_ex = 640"
    by (simp_all add: w_init_def canvas_ex_def)
  moreover from conjunct2 [OF b, THEN mp, OF o] have
    "fst (detectFrame model_ex canvas_ex tick_ex (sched_ex, w_init))
       = fst (detect frame_ex model_ex requestAnimationFrame w_init)"
    "eng (snd (snd (detectFrame model_ex canvas_ex tick_ex (sched_ex, w_init))))
       = eng (snd (detect frame_ex model_ex requestAnimationFrame w_init))"
    "rafQueue (snd (snd (detectFrame model_ex canvas_ex tick_ex (sched_ex, w_init))))
       = rafQueue (snd (detect frame_ex model_ex requestAnimationFrame w_init))"
    unfolding v by blast+
  moreover have "videoWidth (vidSource tick_ex) = 2" by (simp add: tick_ex_def frame_ex_def)
  ultimately show ?thesis using c q by simp
qed

subsection \<open>Decoding the boxes\<close>

lemma round32_disj: "(\<exists>a. round32 x = Num a) \<or> round32 x = PosInf \<or> round32 x = NegInf"
  by (simp add: round32_def Let_def)

lemma round32_cases:
  obtains a where "round32 x = Num a" | "round32 x = PosInf" | "round32 x = NegInf"
  using round32_disj [of x] by blast

lemma corner_order:
  assumes "0 \<le> w"
  shows "js_le (f32_sub (Num c) (f32_div (Num w) (Num 2)))
               (f32_add (f32_sub (Num c) (f32_div (Num w) (Num 2))) (Num w))"
proof -
  define x1 where "x1 = f32_sub (Num c) (f32_div (Num w) (Num 2))"
  have "x1 = NegInf \<or> x1 = PosInf \<or> (\<exists>c' a. round32 c' = Num a \<and> x1 = Num a)"
  proof (cases "w / 2" rule: round32_cases)
    case (1 v)
    then have s: "x1 = round32 (c - v)" by (simp add: x1_def f32_sub_def)
    show ?thesis by (cases "c - v" rule: round32_cases) (auto simp: s)
  next
    case 2
    then show ?thesis by (simp add: x1_def f32_sub_def)
  next
    case 3
    then show ?thesis by (simp add: x1_def f32_sub_def)
  qed
  then have "js_le x1 (f32_add x1 (Num w))"
  proof (elim disjE exE conjE)
    assume "x1 = NegInf"
    then show ?thesis by (simp add: js_le_def)
  next
    assume "x1 = PosInf"
    then show ?thesis by (simp add: js_le_def)
  next
    fix c' a assume "round32 c' = Num a" "x1 = Num a"
    with f32_add_grows [OF this(1) assms] show ?thesis by simp
  qed
  then show ?thesis by (simp only: x1_def)
qed

text \<open>
  C4 as stated fails in its equations: the subtraction, the division and the addition
  are those of binary32 tensors, and they round. For a detection with
  \<open>cx = cy = 2 ^ 24\<close> and \<open>w = h = 1\<close>, \<open>cx - w / 2 = 16777215.5\<close> is no binary32 value and
  is rounded to \<open>2 ^ 24\<close>, and so is \<open>x1 + w = 2 ^ 24 + 1\<close>: the emitted box is
  \<open>(2 ^ 24, 2 ^ 24, 2 ^ 24, 2 ^ 24)\<close>, where \<open>x1\<close> is not \<open>cx - w / 2\<close> and \<open>x2\<close> is not
  \<open>x1 + w\<close>.
\<close>

theorem corner_arithmetic_counterexample:
  "\<not> isl (fst (boxes_of transRes_big w_init)) \<and>
   box_at (snd (projr (fst (boxes_of transRes_big w_init)))) 0
     = (Num 16777216, Num 16777216, Num 16777216, Num 16777216) \<and>
   at3 transRes_big 0 0 0 = Num 16777216 \<and> at3 transRes_big 0 0 2 = Num 1 \<and>
   (16777216 :: real) \<noteq> 16777216 - 1 / 2 \<and> (16777216 :: real) \<noteq> 16777216 + 1"
proof -
  have s: "shape transRes_big = [1, 2, 4]" by (simp add: transRes_big_def)
  from boxes_of_gives [OF s, of "length (scopes (eng w_init))"]
  obtain boxes w' where b: "boxes_of transRes_big w_init = (Inr boxes, w')"
    "\<forall>j < 1 * 2. box_at (snd boxes) j =
        (f32_sub (vals transRes_big ! (j * 4 + 1)) (f32_div (vals transRes_big ! (j * 4 + 3)) (Num 2)),
         f32_sub (vals transRes_big ! (j * 4)) (f32_div (vals transRes_big ! (j * 4 + 2)) (Num 2)),
         f32_add (f32_sub (vals transRes_big ! (j * 4 + 1))
                    (f32_div (vals transRes_big ! (j * 4 + 3)) (Num 2)))
           (vals transRes_big ! (j * 4 + 3)),
         f32_add (f32_sub (vals transRes_big ! (j * 4))
                    (f32_div (vals transRes_big ! (j * 4 + 2)) (Num 2)))
           (vals transRes_big ! (j * 4 + 2)))"
    unfolding gives_def by auto
  from b(2) [rule_format, of 0]
  have "box_at (snd boxes) 0 = (Num 16777216, Num 16777216, Num 16777216, Num 16777216)"
    by (simp add: transRes_big_def f32_sub_def round32_below_2_24 round32_above_2_24)
  with b(1) show ?thesis by (simp add: at3_def transRes_big_def)
qed

text \<open>
  C4 (amended). For a transposed output of shape \<open>[1, n, a]\<close> with at least the four box
  attributes, the \<^verbatim>\<open>boxes\<close> block returns, and row \<open>i\<close> of its result is
  \<open>(y1, x1, y2, x2)\<close> with \<open>x1 = cx - w / 2\<close>, \<open>y1 = cy - h / 2\<close>, \<open>y2 = y1 + h\<close>,
  \<open>x2 = x1 + w\<close> computed in binary32 arithmetic, each operation rounded to the nearest
  binary32 value, where \<open>cx, cy, w, h\<close> are the attributes 0 to 3 of detection \<open>i\<close>. When
  the four attributes are finite and \<open>w\<close> and \<open>h\<close> are not negative, \<open>y1 \<le> y2\<close> and
  \<open>x1 \<le> x2\<close>.
\<close>

theorem boxes_corner_form:
  assumes "shape transRes = [1, n, a]" and "4 \<le> a"
  shows "\<exists>boxes w'. boxes_of transRes w = (Inr boxes, w') \<and>
           (\<forall>i < n. \<exists>y1 x1 y2 x2.
              box_at (snd boxes) i = (y1, x1, y2, x2) \<and>
              x1 = f32_sub (at3 transRes 0 i 0) (f32_div (at3 transRes 0 i 2) (Num 2)) \<and>
              y1 = f32_sub (at3 transRes 0 i 1) (f32_div (at3 transRes 0 i 3) (Num 2)) \<and>
              y2 = f32_add y1 (at3 transRes 0 i 3) \<and>
              x2 = f32_add x1 (at3 transRes 0 i 2) \<and>
              (\<forall>cx cy w h.
                 at3 transRes 0 i 0 = Num cx \<and> at3 transRes 0 i 1 = Num cy \<and>
                 at3 transRes 0 i 2 = Num w \<and> at3 transRes 0 i 3 = Num h \<and> 0 \<le> w \<and> 0 \<le> h \<longrightarrow>
                 js_le y1 y2 \<and> js_le x1 x2))"
proof -
  from boxes_of_gives [OF assms, of "length (scopes (eng w))"]
  obtain boxes w' where b: "boxes_of transRes w = (Inr boxes, w')"
    "\<forall>j < 1 * n. box_at (snd boxes) j =
        (f32_sub (vals transRes ! (j * a + 1)) (f32_div (vals transRes ! (j * a + 3)) (Num 2)),
         f32_sub (vals transRes ! (j * a)) (f32_div (vals transRes ! (j * a + 2)) (Num 2)),
         f32_add (f32_sub (vals transRes ! (j * a + 1))
                    (f32_div (vals transRes ! (j * a + 3)) (Num 2)))
           (vals transRes ! (j * a + 3)),
         f32_add (f32_sub (vals transRes ! (j * a))
                    (f32_div (vals transRes ! (j * a + 2)) (Num 2)))
           (vals transRes ! (j * a + 2)))"
    unfolding gives_def by blast
  have at: "vals transRes ! (i * a + k) = at3 transRes 0 i k" for i k
    by (simp add: at3_def assms(1))
  have row: "\<exists>y1 x1 y2 x2.
              box_at (snd boxes) i = (y1, x1, y2, x2) \<and>
              x1 = f32_sub (at3 transRes 0 i 0) (f32_div (at3 transRes 0 i 2) (Num 2)) \<and>
              y1 = f32_sub (at3 transRes 0 i 1) (f32_div (at3 transRes 0 i 3) (Num 2)) \<and>
              y2 = f32_add y1 (at3 transRes 0 i 3) \<and>
              x2 = f32_add x1 (at3 transRes 0 i 2) \<and>
              (\<forall>cx cy w h.
                 at3 transRes 0 i 0 = Num cx \<and> at3 transRes 0 i 1 = Num cy \<and>
                 at3 transRes 0 i 2 = Num w \<and> at3 transRes 0 i 3 = Num h \<and> 0 \<le> w \<and> 0 \<le> h \<longrightarrow>
                 js_le y1 y2 \<and> js_le x1 x2)" if i: "i < n" for i
  proof -
    define x1 where "x1 = f32_sub (at3 transRes 0 i 0) (f32_div (at3 transRes 0 i 2) (Num 2))"
    define y1 where "y1 = f32_sub (at3 transRes 0 i 1) (f32_div (at3 transRes 0 i 3) (Num 2))"
    have "box_at (snd boxes) i =
        (f32_sub (vals transRes ! (i * a + 1)) (f32_div (vals transRes ! (i * a + 3)) (Num 2)),
         f32_sub (vals transRes ! (i * a + 0)) (f32_div (vals transRes ! (i * a + 2)) (Num 2)),
         f32_add (f32_sub (vals transRes ! (i * a + 1))
                    (f32_div (vals transRes ! (i * a + 3)) (Num 2)))
           (vals transRes ! (i * a + 3)),
         f32_add (f32_sub (vals transRes ! (i * a + 0))
                    (f32_div (vals transRes ! (i * a + 2)) (Num 2)))
           (vals transRes ! (i * a + 2)))"
      using b(2) [rule_format, of i] i by simp
    then have box: "box_at (snd boxes) i
        = (y1, x1, f32_add y1 (at3 transRes 0 i 3), f32_add x1 (at3 transRes 0 i 2))"
      by (simp only: at x1_def y1_def)
    have ord: "js_le y1 (f32_add y1 (at3 transRes 0 i 3)) \<and>
               js_le x1 (f32_add x1 (at3 transRes 0 i 2))"
      if "at3 transRes 0 i 0 = Num cx \<and> at3 transRes 0 i 1 = Num cy \<and>
          at3 transRes 0 i 2 = Num w \<and> at3 transRes 0 i 3 = Num h \<and> 0 \<le> w \<and> 0 \<le> h"
      for cx cy w h
    proof -
      from that have v: "at3 transRes 0 i 0 = Num cx" "at3 transRes 0 i 1 = Num cy"
        "at3 transRes 0 i 2 = Num w" "at3 transRes 0 i 3 = Num h" and p: "0 \<le> w" "0 \<le> h"
        by simp_all
      show ?thesis
        unfolding x1_def y1_def v using corner_order [OF p(1), of cx] corner_order [OF p(2), of cy]
        by (rule conjI [rotated])
    qed
    from box ord x1_def y1_def show ?thesis by blast
  qed
  from b(1) row show ?thesis by blast
qed

theorem boxes_corner_form_witness:
  "shape transRes_ex = [1, 2, 4] \<and> (4::nat) \<le> 4 \<and>
   at3 transRes_ex 0 0 0 = Num 1 \<and> at3 transRes_ex 0 0 1 = Num 1 \<and>
   at3 transRes_ex 0 0 2 = Num 2 \<and> at3 transRes_ex 0 0 3 = Num 2 \<and> (0::real) \<le> 2 \<and>
   (\<exists>boxes w'. boxes_of transRes_ex w_init = (Inr boxes, w') \<and>
      box_at (snd boxes) 0 = (Num 0, Num 0, Num 2, Num 2) \<and>
      box_at (snd boxes) 1 = (Num (5 / 2), Num (5 / 2), Num (7 / 2), Num (7 / 2)) \<and>
      js_le (Num 0) (Num 2))"
proof -
  have s: "shape transRes_ex = [1, 2, 4]" by (simp add: transRes_ex_def)
  have v: "at3 transRes_ex 0 0 0 = Num 1" "at3 transRes_ex 0 0 1 = Num 1"
    "at3 transRes_ex 0 0 2 = Num 2" "at3 transRes_ex 0 0 3 = Num 2"
    "at3 transRes_ex 0 1 0 = Num 3" "at3 transRes_ex 0 1 1 = Num 3"
    "at3 transRes_ex 0 1 2 = Num 1" "at3 transRes_ex 0 1 3 = Num 1"
    by (simp_all add: at3_def transRes_ex_def)
  from boxes_corner_form [OF s, of w_init]
  obtain boxes w' where b: "boxes_of transRes_ex w_init = (Inr boxes, w')"
    and r: "\<forall>i < 2. \<exists>y1 x1 y2 x2.
              box_at (snd boxes) i = (y1, x1, y2, x2) \<and>
              x1 = f32_sub (at3 transRes_ex 0 i 0) (f32_div (at3 transRes_ex 0 i 2) (Num 2)) \<and>
              y1 = f32_sub (at3 transRes_ex 0 i 1) (f32_div (at3 transRes_ex 0 i 3) (Num 2)) \<and>
              y2 = f32_add y1 (at3 transRes_ex 0 i 3) \<and>
              x2 = f32_add x1 (at3 transRes_ex 0 i 2) \<and>
              (\<forall>cx cy w h.
                 at3 transRes_ex 0 i 0 = Num cx \<and> at3 transRes_ex 0 i 1 = Num cy \<and>
                 at3 transRes_ex 0 i 2 = Num w \<and> at3 transRes_ex 0 i 3 = Num h \<and> 0 \<le> w \<and> 0 \<le> h \<longrightarrow>
                 js_le y1 y2 \<and> js_le x1 x2)"
    by auto
  have lt: "0 < (2::nat)" "1 < (2::nat)" by simp_all
  from r [rule_format, OF lt(1)] obtain y1 x1 y2 x2 where
    b0: "box_at (snd boxes) 0 = (y1, x1, y2, x2)"
      "x1 = f32_sub (at3 transRes_ex 0 0 0) (f32_div (at3 transRes_ex 0 0 2) (Num 2))"
      "y1 = f32_sub (at3 transRes_ex 0 0 1) (f32_div (at3 transRes_ex 0 0 3) (Num 2))"
      "y2 = f32_add y1 (at3 transRes_ex 0 0 3)"
      "x2 = f32_add x1 (at3 transRes_ex 0 0 2)"
      and o: "\<forall>cx cy w h.
                 at3 transRes_ex 0 0 0 = Num cx \<and> at3 transRes_ex 0 0 1 = Num cy \<and>
                 at3 transRes_ex 0 0 2 = Num w \<and> at3 transRes_ex 0 0 3 = Num h \<and> 0 \<le> w \<and> 0 \<le> h \<longrightarrow>
                 js_le y1 y2 \<and> js_le x1 x2"
    by blast
  from b0 have e0: "box_at (snd boxes) 0 = (Num 0, Num 0, Num 2, Num 2)"
    by (simp add: v f32_sub_def del: One_nat_def)
  with b0(1) have "y1 = Num 0" "y2 = Num 2" by simp_all
  moreover from o v have "js_le y1 y2" by (simp del: One_nat_def)
  ultimately have le: "js_le (Num 0) (Num 2)" by simp
  from r [rule_format, OF lt(2)] obtain y1' x1' y2' x2' where
    b1: "box_at (snd boxes) 1 = (y1', x1', y2', x2')"
      "x1' = f32_sub (at3 transRes_ex 0 1 0) (f32_div (at3 transRes_ex 0 1 2) (Num 2))"
      "y1' = f32_sub (at3 transRes_ex 0 1 1) (f32_div (at3 transRes_ex 0 1 3) (Num 2))"
      "y2' = f32_add y1' (at3 transRes_ex 0 1 3)"
      "x2' = f32_add x1' (at3 transRes_ex 0 1 2)"
    by blast
  then have e1: "box_at (snd boxes) 1 = (Num (5 / 2), Num (5 / 2), Num (7 / 2), Num (7 / 2))"
    by (simp add: v f32_sub_def del: One_nat_def)
  from s v b e0 e1 le show ?thesis by auto
qed

subsection \<open>preprocess\<close>

lemma pad_Inr:
  assumes "shape img = [h, w, c]"
  shows "pad img pb pr = Inr \<lparr>shape = [h + pb, w + pr, c],
           vals = tab3 (h + pb) (w + pr) c
                    (\<lambda>i j k. if i < h \<and> j < w then vals img ! ((i * w + j) * c + k) else 0)\<rparr>"
  using assms by (simp add: pad_def)

lemma resizeBilinear_Inr:
  assumes "shape p = [h, w, c]"
  shows "resizeBilinear p nh nw
           = Inr \<lparr>shape = [nh, nw, c], vals = tab3 nh nw c (bilinear p h w c nh nw)\<rparr>"
  using assms by (simp add: resizeBilinear_def)

lemma preprocess_gives:
  assumes fp: "fromPixels src = Inr img" and sh: "shape img = [h, w, c]"
    and pd: "pad img (max w h - h) (max w h - w) = Inr p"
    and rs: "resizeBilinear p modelWidth modelHeight = Inr r"
  shows "gives d d (preprocess src modelWidth modelHeight)
           (\<lambda>x. snd (fst x) = expandDims0 (div_scalar r 255) \<and>
                fst (snd x) = js_div (Num (real (max w h))) (Num (real w)) \<and>
                snd (snd x) = js_div (Num (real (max w h))) (Num (real h)))"
  unfolding preprocess_def
  apply (rule gives_tidy)
  apply (rule gives_bnd_op [OF fp], simp only: snd_conv sh list.case Let_def)
  apply (rule gives_bnd_op [OF pd], simp only: snd_conv)
  apply (rule gives_bnd_op [OF rs], simp only: snd_conv)
  apply (rule gives_bnd_track, simp only: snd_conv)
  apply (rule gives_bnd_track)
  apply (rule gives_ret)
  apply simp
  done

lemma preprocess_returns:
  assumes fp: "fromPixels src = Inr img" and sh: "shape img = [h, w, c]"
  obtains input w' p r where
    "preprocess src modelWidth modelHeight wd
       = (Inr (input, js_div (Num (real (max w h))) (Num (real w)),
                      js_div (Num (real (max w h))) (Num (real h))), w')"
    "pad img (max w h - h) (max w h - w) = Inr p"
    "shape p = [max w h, max w h, c]"
    "vals p = tab3 (max w h) (max w h) c
                (\<lambda>i j k. if i < h \<and> j < w then vals img ! ((i * w + j) * c + k) else 0)"
    "resizeBilinear p modelWidth modelHeight = Inr r"
    "shape r = [modelWidth, modelHeight, c]"
    "vals r = tab3 modelWidth modelHeight c
                (bilinear p (max w h) (max w h) c modelWidth modelHeight)"
    "snd input = expandDims0 (div_scalar r 255)"
proof -
  define p where "p = \<lparr>shape = [max w h, max w h, c],
       vals = tab3 (max w h) (max w h) c
                (\<lambda>i j k. if i < h \<and> j < w then vals img ! ((i * w + j) * c + k) else 0)\<rparr>"
  define r where "r = \<lparr>shape = [modelWidth, modelHeight, c],
       vals = tab3 modelWidth modelHeight c
                (bilinear p (max w h) (max w h) c modelWidth modelHeight)\<rparr>"
  have pd: "pad img (max w h - h) (max w h - w) = Inr p"
    using pad_Inr [OF sh, of "max w h - h" "max w h - w"] by (simp add: p_def)
  have rs: "resizeBilinear p modelWidth modelHeight = Inr r"
    using resizeBilinear_Inr [of p "max w h" "max w h" c modelWidth modelHeight]
    by (simp add: p_def r_def)
  from preprocess_gives [OF fp sh pd rs, of "length (scopes (eng wd))"]
  obtain x w' where x: "preprocess src modelWidth modelHeight wd = (Inr x, w')"
    "snd (fst x) = expandDims0 (div_scalar r 255)"
    "fst (snd x) = js_div (Num (real (max w h))) (Num (real w))"
    "snd (snd x) = js_div (Num (real (max w h))) (Num (real h))"
    unfolding gives_def by blast
  have "x = (fst x, fst (snd x), snd (snd x))" by simp
  with x have "preprocess src modelWidth modelHeight wd
       = (Inr (fst x, js_div (Num (real (max w h))) (Num (real w)),
                      js_div (Num (real (max w h))) (Num (real h))), w')"
    by metis
  then show ?thesis
    using pd rs x(2) by (intro that [of "fst x" w' p r]) (simp_all add: p_def r_def)
qed

lemma round64_fl64:
  assumes "1 \<le> x" "x < 2 ^ 1000"
  shows "round64 x = Num (fl64 x)"
proof -
  have e: "\<bar>fl64 x - x\<bar> \<le> x / 2 ^ 53" using assms(1) by (rule fl64_error)
  have "x / 2 ^ 53 \<le> x" using assms(1) by (simp add: field_simps)
  with e have "fl64 x \<le> 2 * x" "0 \<le> fl64 x" by linarith+
  moreover have "2 * x < 2 * 2 ^ 1000" using assms(2) by simp
  moreover have "2 * (2::real) ^ 1000 \<le> 2 ^ 1024" by simp
  ultimately have "\<not> 2 ^ 1024 \<le> fl64 x" "\<not> fl64 x \<le> - (2 ^ 1024)" by linarith+
  then show ?thesis by (simp add: round64_def)
qed

lemma ratio_rounded:
  assumes "0 < w" "w \<le> m" "m < 2 ^ 53"
  shows "\<exists>q. js_div (Num (real m)) (Num (real w)) = Num q \<and>
             \<bar>q * real w - real m\<bar> \<le> real m / 2 ^ 53 \<and> (w = m \<longrightarrow> q = 1)"
proof -
  define x where "x = real m / real w"
  have x1: "1 \<le> x" using assms(1,2) by (simp add: x_def)
  have "x \<le> real m" using assms(1) by (simp add: x_def field_simps mult_le_cancel_left1)
  also have "\<dots> < 2 ^ 53" using assms(3) by (metis of_nat_less_numeral_power_cancel_iff)
  also have "(2::real) ^ 53 \<le> 2 ^ 1000" by simp
  finally have x2: "x < 2 ^ 1000" .
  have j: "js_div (Num (real m)) (Num (real w)) = Num (fl64 x)"
    using assms(1) round64_fl64 [OF x1 x2] by (simp add: x_def)
  have "\<bar>fl64 x * real w - real m\<bar> = \<bar>fl64 x - x\<bar> * real w"
  proof -
    have "fl64 x * real w - real m = (fl64 x - x) * real w"
      using assms(1) by (simp add: x_def field_simps)
    then show ?thesis by (simp add: abs_mult)
  qed
  also have "\<dots> \<le> x / 2 ^ 53 * real w"
    using fl64_error [OF x1] by (intro mult_right_mono) simp_all
  also have "\<dots> = real m / 2 ^ 53" using assms(1) by (simp add: x_def)
  finally have b: "\<bar>fl64 x * real w - real m\<bar> \<le> real m / 2 ^ 53" .
  have "fl64 x = 1" if "w = m"
  proof -
    have "x = of_int 1" using that assms(1) by (simp add: x_def)
    then show ?thesis using fl64_int [of 1] by simp
  qed
  with j b show ?thesis by blast
qed


lemma div_29_7: "round64 (29 / 7) = Num (4664442471205157 / 2 ^ 50)"
proof -
  have "fl64 (29 / 7) = of_int (rne (29 / 7 / 2 powi (2 - 52))) * 2 powi (2 - 52)"
    by (rule fl64_normal) simp_all
  also have "rne (29 / 7 / 2 powi (2 - 52)) = 4664442471205157"
    by (simp add: rne_def power_int_minus)
  finally have "fl64 (29 / 7) = 4664442471205157 / 2 ^ 50" by (simp add: power_int_minus)
  then show ?thesis by (simp add: round64_def)
qed

lemma mul_back_7: "round64 (4664442471205157 / 2 ^ 50 * 7) = Num (29 + 1 / 2 ^ 48)"
proof -
  have "fl64 (4664442471205157 / 2 ^ 50 * 7)
          = of_int (rne (4664442471205157 / 2 ^ 50 * 7 / 2 powi (4 - 52))) * 2 powi (4 - 52)"
    by (rule fl64_normal) simp_all
  also have "rne (4664442471205157 / 2 ^ 50 * 7 / 2 powi (4 - 52)) = 8162774324609025"
    by (simp add: rne_def power_int_minus)
  finally have "fl64 (4664442471205157 / 2 ^ 50 * 7) = 29 + 1 / 2 ^ 48"
    by (simp add: power_int_minus)
  then show ?thesis by (simp add: round64_def)
qed

text \<open>
  C1 as stated fails: the ratios are quotients of doubles, and a product with a rounded
  quotient need not give the dividend back. For a frame 7 wide and 29 high, \<open>xRatio\<close> is
  the double nearest to \<open>29 / 7\<close>; neither its exact product with 7 nor the product
  rounded to a double is 29.
\<close>

theorem ratio_times_width_counterexample:
  "\<not> isl (fst (preprocess frame_7x29 640 640 w_init)) \<and>
   fst (snd (projr (fst (preprocess frame_7x29 640 640 w_init)))) = Num (4664442471205157 / 2 ^ 50) \<and>
   4664442471205157 / 2 ^ 50 * 7 \<noteq> (29::real) \<and>
   js_mul (fst (snd (projr (fst (preprocess frame_7x29 640 640 w_init))))) (Num 7)
     = Num (29 + 1 / 2 ^ 48) \<and>
   Num (29 + 1 / 2 ^ 48) \<noteq> Num 29"
proof -
  have fp: "fromPixels frame_7x29 = Inr \<lparr>shape = [29, 7, 3], vals = replicate 609 0\<rparr>"
    by (simp add: frame_7x29_def)
  have sh: "shape \<lparr>shape = [29, 7, 3], vals = replicate 609 0\<rparr> = [29, 7, 3]" by simp
  obtain input w' where "preprocess frame_7x29 640 640 w_init
       = (Inr (input, js_div (Num (real (max 7 29))) (Num (real 7)),
                      js_div (Num (real (max 7 29))) (Num (real 29))), w')"
  proof (rule preprocess_returns [OF fp sh, of 640 640 w_init])
    fix input w'
    assume "preprocess frame_7x29 640 640 w_init
       = (Inr (input, js_div (Num (real (max 7 29))) (Num (real 7)),
                      js_div (Num (real (max 7 29))) (Num (real 29))), w')"
    then show thesis by (rule that)
  qed
  then show ?thesis using div_29_7 mul_back_7 by simp
qed


text \<open>
  C1 (amended). For a frame of positive width \<open>w\<close> and height \<open>h\<close> (both below \<open>2 ^ 53\<close>),
  \<^verbatim>\<open>preprocess\<close> returns; the ratios are the double-precision quotients of
  \<open>max w h\<close> by \<open>w\<close> and by \<open>h\<close>, so \<open>xRatio * w\<close> and \<open>yRatio * h\<close> equal
  \<open>max w h\<close> up to the rounding of the division (relative error at most \<open>2 ^ -53\<close>), and
  the ratio of the longer side is exactly 1. The image that is resized is the square of
  side \<open>max w h\<close> that holds the frame at rows below \<open>h\<close> and columns below \<open>w\<close>, and 0
  everywhere else: rows are added at the bottom and columns on the right only.
\<close>

theorem preprocess_padding_and_ratios:
  assumes "fromPixels src = Inr img" and "shape img = [h, w, c]"
    and "0 < w" and "0 < h" and "max w h < 2 ^ 53"
  shows "\<exists>input xRatio yRatio w' imgPadded resized.
           preprocess src modelWidth modelHeight wd = (Inr (input, Num xRatio, Num yRatio), w') \<and>
           \<bar>xRatio * real w - real (max w h)\<bar> \<le> real (max w h) / 2 ^ 53 \<and>
           \<bar>yRatio * real h - real (max w h)\<bar> \<le> real (max w h) / 2 ^ 53 \<and>
           (h \<le> w \<longrightarrow> xRatio = 1) \<and> (w \<le> h \<longrightarrow> yRatio = 1) \<and>
           pad img (max w h - h) (max w h - w) = Inr imgPadded \<and>
           shape imgPadded = [max w h, max w h, c] \<and>
           (\<forall>i < max w h. \<forall>j < max w h. \<forall>k < c.
              at3 imgPadded i j k = (if i < h \<and> j < w then at3 img i j k else 0)) \<and>
           resizeBilinear imgPadded modelWidth modelHeight = Inr resized \<and>
           snd input = expandDims0 (div_scalar resized 255)"
proof -
  obtain input w' p r where pr:
    "preprocess src modelWidth modelHeight wd
       = (Inr (input, js_div (Num (real (max w h))) (Num (real w)),
                      js_div (Num (real (max w h))) (Num (real h))), w')"
    "pad img (max w h - h) (max w h - w) = Inr p"
    "shape p = [max w h, max w h, c]"
    "vals p = tab3 (max w h) (max w h) c
                (\<lambda>i j k. if i < h \<and> j < w then vals img ! ((i * w + j) * c + k) else 0)"
    "resizeBilinear p modelWidth modelHeight = Inr r"
    "snd input = expandDims0 (div_scalar r 255)"
  proof (rule preprocess_returns [OF assms(1,2), of modelWidth modelHeight wd])
    fix input w' p r
    assume "preprocess src modelWidth modelHeight wd
       = (Inr (input, js_div (Num (real (max w h))) (Num (real w)),
                      js_div (Num (real (max w h))) (Num (real h))), w')"
    "pad img (max w h - h) (max w h - w) = Inr p"
    "shape p = [max w h, max w h, c]"
    "vals p = tab3 (max w h) (max w h) c
                (\<lambda>i j k. if i < h \<and> j < w then vals img ! ((i * w + j) * c + k) else 0)"
    "resizeBilinear p modelWidth modelHeight = Inr r"
    "shape r = [modelWidth, modelHeight, c]"
    "vals r = tab3 modelWidth modelHeight c
                (bilinear p (max w h) (max w h) c modelWidth modelHeight)"
    "snd input = expandDims0 (div_scalar r 255)"
    then show thesis by (intro that [of input w' p r])
  qed
  from ratio_rounded [OF assms(3) _ assms(5)] obtain xr where
    xr: "js_div (Num (real (max w h))) (Num (real w)) = Num xr"
      "\<bar>xr * real w - real (max w h)\<bar> \<le> real (max w h) / 2 ^ 53" "w = max w h \<longrightarrow> xr = 1"
    by auto
  from ratio_rounded [OF assms(4) _ assms(5)] obtain yr where
    yr: "js_div (Num (real (max w h))) (Num (real h)) = Num yr"
      "\<bar>yr * real h - real (max w h)\<bar> \<le> real (max w h) / 2 ^ 53" "h = max w h \<longrightarrow> yr = 1"
    by auto
  have at: "at3 p i j k = (if i < h \<and> j < w then at3 img i j k else 0)"
    if "i < max w h" "j < max w h" "k < c" for i j k
    using that by (simp add: at3_def pr(3,4) assms(2) tab3_at)
  have x1: "h \<le> w \<longrightarrow> xr = 1" using xr(3) by (simp add: max_def)
  have y1: "w \<le> h \<longrightarrow> yr = 1" using yr(3) by (simp add: max_def)
  have run: "preprocess src modelWidth modelHeight wd = (Inr (input, Num xr, Num yr), w')"
    using pr(1) by (simp only: xr(1) yr(1))
  from run xr(2) yr(2) x1 y1 pr(2,3) at pr(5,6) show ?thesis by blast
qed



theorem preprocess_padding_and_ratios_witness:
  "fromPixels frame_ex = Inr \<lparr>shape = [1, 2, 3], vals = [255, 0, 0, 0, 255, 0]\<rparr> \<and>
   (0::nat) < 2 \<and> (0::nat) < 1 \<and> max 2 1 < (2::nat) ^ 53 \<and>
   (\<exists>input yRatio w' imgPadded.
      preprocess frame_ex 2 2 w_init = (Inr (input, Num 1, Num yRatio), w') \<and>
      \<bar>yRatio * 1 - 2\<bar> \<le> 2 / 2 ^ 53 \<and>
      pad \<lparr>shape = [1, 2, 3], vals = [255, 0, 0, 0, 255, 0]\<rparr> 1 0 = Inr imgPadded \<and>
      shape imgPadded = [2, 2, 3] \<and>
      at3 imgPadded 0 0 0 = 255 \<and> at3 imgPadded 0 1 1 = 255 \<and> at3 imgPadded 1 0 0 = 0)"
proof -
  let ?img = "\<lparr>shape = [1, 2, 3], vals = [255, 0, 0, 0, 255, 0]\<rparr>"
  have fp: "fromPixels frame_ex = Inr ?img" by (simp add: frame_ex_def)
  have sh: "shape ?img = [1, 2, 3]" by simp
  have b: "max 2 1 < (2::nat) ^ 53" by simp
  have pos: "(0::nat) < 2" "(0::nat) < 1" by simp_all
  have m: "max 2 1 = (2::nat)" by simp
  have a: "at3 ?img 0 0 0 = 255" "at3 ?img 0 1 1 = 255" by (simp_all add: at3_def)
  note t = preprocess_padding_and_ratios [OF fp sh pos b, of 2 2 w_init]
  have "\<exists>input yRatio w' imgPadded.
      preprocess frame_ex 2 2 w_init = (Inr (input, Num 1, Num yRatio), w') \<and>
      \<bar>yRatio * 1 - 2\<bar> \<le> 2 / 2 ^ 53 \<and>
      pad ?img 1 0 = Inr imgPadded \<and>
      shape imgPadded = [2, 2, 3] \<and>
      at3 imgPadded 0 0 0 = 255 \<and> at3 imgPadded 0 1 1 = 255 \<and> at3 imgPadded 1 0 0 = 0"
    using t
  proof (elim exE conjE)
    fix input xRatio yRatio w' imgPadded resized
    assume run: "preprocess frame_ex 2 2 w_init = (Inr (input, Num xRatio, Num yRatio), w')"
      and y: "\<bar>yRatio * real 1 - real (max 2 1)\<bar> \<le> real (max 2 1) / 2 ^ 53"
      and x: "(1::nat) \<le> 2 \<longrightarrow> xRatio = 1"
      and pd: "pad ?img (max 2 1 - 1) (max 2 1 - 2) = Inr imgPadded"
      and sp: "shape imgPadded = [max 2 1, max 2 1, 3]"
      and at: "\<forall>i<max 2 1. \<forall>j<max 2 1. \<forall>k<3.
                 at3 imgPadded i j k = (if i < 1 \<and> j < 2 then at3 ?img i j k else 0)"
    from at [unfolded m, rule_format, of 0 0 0] a have v1: "at3 imgPadded 0 0 0 = 255" by simp
    from at [unfolded m, rule_format, of 0 1 1] a have v2: "at3 imgPadded 0 1 1 = 255" by simp
    from at [unfolded m, rule_format, of 1 0 0] have v3: "at3 imgPadded 1 0 0 = 0" by simp
    from x have x1: "xRatio = 1" by simp
    from y have y1: "\<bar>yRatio * 1 - 2\<bar> \<le> 2 / 2 ^ 53" by simp
    from pd have pd1: "pad ?img 1 0 = Inr imgPadded" by simp
    from sp have sp1: "shape imgPadded = [2, 2, 3]" by simp
    from run x1 have run1: "preprocess frame_ex 2 2 w_init = (Inr (input, Num 1, Num yRatio), w')"
      by simp
    from run1 y1 pd1 sp1 v1 v2 v3 show ?thesis by blast
  qed
  with fp show ?thesis by simp
qed






lemma close_open [simp]: "close_scope {} (open_scope e) = e"
  by (cases "scopes e") (simp_all add: close_scope_def open_scope_def)

lemma preprocess_fromPixels_error:
  assumes "fromPixels src = Inl e"
  shows "preprocess src modelWidth modelHeight w = (Inl e, w)"
  using assms by (simp add: preprocess_def tidy_def bnd_def tf_op_def throw_def)

lemma preprocess_rank_error:
  assumes "fromPixels src = Inr img" and "length (shape img) \<noteq> 3"
  shows "\<exists>s. fst (preprocess src modelWidth modelHeight w) = Inl (OpError s)"
proof (cases "shape img")
  case Nil
  then show ?thesis using assms(1)
    by (simp add: preprocess_def tidy_def bnd_def tf_op_def throw_def track_def Let_def)
next
  case (Cons h t)
  note c1 = this
  show ?thesis
  proof (cases t)
    case Nil
    then show ?thesis using assms(1) c1
      by (simp add: preprocess_def tidy_def bnd_def tf_op_def throw_def track_def Let_def)
  next
    case (Cons w u)
    then have "pad img pb pr = Inl (OpError ''pad'')" for pb pr
      using c1 assms(2) by (cases u) (auto simp: pad_def split: list.splits)
    then show ?thesis using assms(1) c1 Cons
      by (simp add: preprocess_def tidy_def bnd_def tf_op_def throw_def track_def Let_def)
  qed
qed

lemma detect_fromPixels_error:
  assumes "fromPixels src = Inl e" and "take 2 (drop 1 (inputShape mdl)) = [modelWidth, modelHeight]"
  shows "detect src mdl cb w = (Inl e, w\<lparr>eng := open_scope (eng w)\<rparr>)"
  using assms
  by (simp add: detect_def Let_def bnd_def startScope_def preprocess_fromPixels_error)


text \<open>
  C8 as stated fails: \<^verbatim>\<open>preprocess\<close> does not look at the size of the frame. For a
  frame of height 2 and width 0 it returns normally, with \<open>xRatio = 2 / 0 = Infinity\<close>.
\<close>

theorem zero_width_frame_counterexample:
  "\<not> isl (fst (preprocess frame_0x2 1 1 w_init)) \<and>
   fst (preprocess frame_0x2 1 1 w_init) \<noteq> Inl InvalidFrame \<and>
   snd (projr (fst (preprocess frame_0x2 1 1 w_init))) = (PosInf, Num 1)"
proof -
  have fp: "fromPixels frame_0x2 = Inr \<lparr>shape = [2, 0, 3], vals = []\<rparr>"
    by (simp add: frame_0x2_def)
  have sh: "shape \<lparr>shape = [2, 0, 3], vals = []\<rparr> = [2, 0, 3]" by simp
  obtain input w' where "preprocess frame_0x2 1 1 w_init
       = (Inr (input, js_div (Num (real (max 0 2))) (Num (real 0)),
                      js_div (Num (real (max 0 2))) (Num (real 2))), w')"
  proof (rule preprocess_returns [OF fp sh, of 1 1 w_init])
    fix input w'
    assume "preprocess frame_0x2 1 1 w_init
       = (Inr (input, js_div (Num (real (max 0 2))) (Num (real 0)),
                      js_div (Num (real (max 0 2))) (Num (real 2))), w')"
    then show thesis by (rule that)
  qed
  then show ?thesis by (simp add: js_inf_def)
qed

text \<open>
  C8 (amended). \<^verbatim>\<open>preprocess\<close> has no error condition of its own and never raises
  \<open>InvalidFrame\<close>: whenever \<^verbatim>\<open>fromPixels\<close> delivers a tensor of shape \<open>[h, w, c]\<close>,
  of zero area or not, it returns, with the ratios \<open>max w h / w\<close> and \<open>max w h / h\<close> as
  JavaScript quotients (Infinity for a zero side next to a positive one, NaN when both
  are zero); it fails exactly with the exception that \<^verbatim>\<open>fromPixels\<close> throws. Such a
  failure aborts the detection call; a tick of the scheduler then ends with that
  exception, having changed only \<open>startInferenceTime\<close>: the accumulators, the FPS text,
  the rendered events and the queue of frame requests are as before.
\<close>

theorem preprocess_has_no_frame_check:
  "(\<forall>img h w c. fromPixels src = Inr img \<and> shape img = [h, w, c] \<longrightarrow>
      (\<exists>input w'. preprocess src modelWidth modelHeight wd
          = (Inr (input, js_div (Num (real (max w h))) (Num (real w)),
                         js_div (Num (real (max w h))) (Num (real h))), w')) \<and>
      (w = 0 \<and> 0 < h \<longrightarrow> js_div (Num (real (max w h))) (Num (real w)) = PosInf) \<and>
      (h = 0 \<and> 0 < w \<longrightarrow> js_div (Num (real (max w h))) (Num (real h)) = PosInf) \<and>
      (w = 0 \<and> h = 0 \<longrightarrow> js_div (Num (real (max w h))) (Num (real w)) = NaN \<and>
                           js_div (Num (real (max w h))) (Num (real h)) = NaN)) \<and>
   (\<forall>e. fromPixels src = Inl e \<longrightarrow> preprocess src modelWidth modelHeight wd = (Inl e, wd)) \<and>
   (fst (preprocess src modelWidth modelHeight wd) = Inl InvalidFrame)
      = (fromPixels src = Inl InvalidFrame) \<and>
   (\<forall>e t mdl cv s mw mh.
      vidSource t = src \<and> fromPixels src = Inl e \<and>
      \<not> (videoWidth src = 0 \<and> srcObject src = None) \<and>
      take 2 (drop 1 (inputShape mdl)) = [mw, mh] \<longrightarrow>
      (\<exists>w'. detectFrame mdl cv t (s, wd) = (Inl e, s\<lparr>startInferenceTime := Num (now_start t)\<rparr>, w') \<and>
            events w' = events wd \<and> rafQueue w' = rafQueue wd \<and> innerHTML w' = innerHTML wd))"
proof (intro conjI allI impI iffI)
  fix img h w c
  assume a: "fromPixels src = Inr img \<and> shape img = [h, w, c]"
  then have fp: "fromPixels src = Inr img" and sh: "shape img = [h, w, c]" by simp_all
  show "\<exists>input w'. preprocess src modelWidth modelHeight wd
          = (Inr (input, js_div (Num (real (max w h))) (Num (real w)),
                         js_div (Num (real (max w h))) (Num (real h))), w')"
  proof (rule preprocess_returns [OF fp sh, of modelWidth modelHeight wd])
    fix input w'
    assume "preprocess src modelWidth modelHeight wd
          = (Inr (input, js_div (Num (real (max w h))) (Num (real w)),
                         js_div (Num (real (max w h))) (Num (real h))), w')"
    then show ?thesis by (intro exI)
  qed
  show "js_div (Num (real (max w h))) (Num (real w)) = PosInf" if "w = 0 \<and> 0 < h"
    using that by (simp add: js_inf_def)
  show "js_div (Num (real (max w h))) (Num (real h)) = PosInf" if "h = 0 \<and> 0 < w"
    using that by (simp add: js_inf_def)
  show "js_div (Num (real (max w h))) (Num (real w)) = NaN" if "w = 0 \<and> h = 0"
    using that by simp
  show "js_div (Num (real (max w h))) (Num (real h)) = NaN" if "w = 0 \<and> h = 0"
    using that by simp
next
  fix e
  assume "fromPixels src = Inl e"
  then show "preprocess src modelWidth modelHeight wd = (Inl e, wd)"
    by (rule preprocess_fromPixels_error)
next
  assume i: "fst (preprocess src modelWidth modelHeight wd) = Inl InvalidFrame"
  show "fromPixels src = Inl InvalidFrame"
  proof (cases "fromPixels src")
    case (Inl e)
    with i show ?thesis by (simp add: preprocess_fromPixels_error)
  next
    case (Inr img)
    show ?thesis
    proof (cases "length (shape img) = 3")
      case True
      then obtain h w c where sh: "shape img = [h, w, c]"
        by (auto simp: numeral_3_eq_3 length_Suc_conv)
      have "\<not> isl (fst (preprocess src modelWidth modelHeight wd))"
      proof (rule preprocess_returns [OF Inr sh, of modelWidth modelHeight wd])
        fix input w'
        assume "preprocess src modelWidth modelHeight wd
          = (Inr (input, js_div (Num (real (max w h))) (Num (real w)),
                         js_div (Num (real (max w h))) (Num (real h))), w')"
        then show ?thesis by simp
      qed
      with i show ?thesis by simp
    next
      case False
      from preprocess_rank_error [OF Inr False, of modelWidth modelHeight wd] i
      show ?thesis by auto
    qed
  qed
next
  assume "fromPixels src = Inl InvalidFrame"
  then show "fst (preprocess src modelWidth modelHeight wd) = Inl InvalidFrame"
    by (simp add: preprocess_fromPixels_error)
next
  fix e and t :: tick and mdl :: model and cv :: canvas and s :: sched and mw mh
  assume a: "vidSource t = src \<and> fromPixels src = Inl e \<and>
      \<not> (videoWidth src = 0 \<and> srcObject src = None) \<and>
      take 2 (drop 1 (inputShape mdl)) = [mw, mh]"
  then have vs: "vidSource t = src" by simp
  from a have d: "detect src mdl requestAnimationFrame wd
                  = (Inl e, wd\<lparr>eng := open_scope (eng wd)\<rparr>)"
    by (intro detect_fromPixels_error) simp_all
  have "detectFrame mdl cv t (s, wd)
          = (Inl e, s\<lparr>startInferenceTime := Num (now_start t)\<rparr>, wd\<lparr>eng := open_scope (eng wd)\<rparr>)"
    using a by (simp add: detectFrame_def vs d)
  then show "\<exists>w'. detectFrame mdl cv t (s, wd)
                 = (Inl e, s\<lparr>startInferenceTime := Num (now_start t)\<rparr>, w') \<and>
            events w' = events wd \<and> rafQueue w' = rafQueue wd \<and> innerHTML w' = innerHTML wd"
    by simp
qed


theorem preprocess_has_no_frame_check_witness:
  "fromPixels frame_0x2 = Inr \<lparr>shape = [2, 0, 3], vals = []\<rparr> \<and>
   (\<exists>input w'. preprocess frame_0x2 1 1 w_init = (Inr (input, PosInf, Num 1), w')) \<and>
   fromPixels source_failing = Inl (OpError ''fromPixels'') \<and>
   preprocess source_failing 1 1 w_init = (Inl (OpError ''fromPixels''), w_init) \<and>
   vidSource tick_failing = source_failing \<and>
   videoWidth source_failing = 2 \<and>
   take 2 (drop 1 (inputShape model_ex)) = [2, 2] \<and>
   (\<exists>w'. detectFrame model_ex canvas_ex tick_failing (sched_ex, w_init)
            = (Inl (OpError ''fromPixels''), sched_ex\<lparr>startInferenceTime := Num 5000\<rparr>, w') \<and>
         events w' = [] \<and> rafQueue w' = 0 \<and> innerHTML w' = Num 0)"
proof -
  note a = preprocess_has_no_frame_check [of frame_0x2 1 1 w_init]
  note b = preprocess_has_no_frame_check [of source_failing 1 1 w_init]
  have fp: "fromPixels frame_0x2 = Inr \<lparr>shape = [2, 0, 3], vals = []\<rparr>"
    by (simp add: frame_0x2_def)
  have sh: "shape \<lparr>shape = [2, 0, 3], vals = []\<rparr> = [2, 0, 3]" by simp
  from a [THEN conjunct1, rule_format, of "\<lparr>shape = [2, 0, 3], vals = []\<rparr>" 2 0 3] fp sh
  have p1: "\<exists>input w'. preprocess frame_0x2 1 1 w_init = (Inr (input, PosInf, Num 1), w')"
    by (simp add: js_inf_def)
  have fe: "fromPixels source_failing = Inl (OpError ''fromPixels'')"
    by (simp add: source_failing_def)
  from b [THEN conjunct2, THEN conjunct1, rule_format, OF fe]
  have p2: "preprocess source_failing 1 1 w_init = (Inl (OpError ''fromPixels''), w_init)" .
  have vs: "vidSource tick_failing = source_failing" by (simp add: tick_failing_def)
  have vw: "videoWidth source_failing = 2" by (simp add: source_failing_def)
  have nc: "\<not> (videoWidth source_failing = 0 \<and> srcObject source_failing = None)"
    by (simp add: source_failing_def)
  have ish: "take 2 (drop 1 (inputShape model_ex)) = [2, 2]" by (simp add: model_ex_def)
  from b [THEN conjunct2, THEN conjunct2, THEN conjunct2, rule_format,
      of tick_failing "OpError ''fromPixels''" model_ex 2 2 canvas_ex sched_ex] vs fe nc ish
  have "\<exists>w'. detectFrame model_ex canvas_ex tick_failing (sched_ex, w_init)
            = (Inl (OpError ''fromPixels''),
               sched_ex\<lparr>startInferenceTime := Num (now_start tick_failing)\<rparr>, w') \<and>
         events w' = events w_init \<and> rafQueue w' = rafQueue w_init \<and>
         innerHTML w' = innerHTML w_init"
    by blast
  then have p3: "\<exists>w'. detectFrame model_ex canvas_ex tick_failing (sched_ex, w_init)
            = (Inl (OpError ''fromPixels''), sched_ex\<lparr>startInferenceTime := Num 5000\<rparr>, w') \<and>
         events w' = [] \<and> rafQueue w' = 0 \<and> innerHTML w' = Num 0"
    by (simp add: tick_failing_def w_init_def)
  from fp p1 fe p2 vs vw ish p3 show ?thesis by blast
qed

subsection \<open>The discipline of the scope\<close>

lemma scoped_bnd:
  assumes "scoped n ids1 m" and "\<And>x. \<forall>i \<in> ids1 x. n \<le> i \<Longrightarrow> scoped n ids (f x)"
  shows "scoped n ids (bnd m f)"
  unfolding scoped_def
proof (intro allI impI)
  fix e0 and w :: world
  assume pre: "fresh e0 \<and> inside e0 (eng w) \<and> nextId e0 \<le> n \<and> n \<le> nextId (eng w)"
  obtain r w1 where mw: "m w = (r, w1)" by (cases "m w")
  from assms(1) pre mw have s1: "inside e0 (eng w1)" "nextId (eng w) \<le> nextId (eng w1)"
    "\<And>x. r = Inr x \<Longrightarrow> \<forall>i \<in> ids1 x. n \<le> i"
    unfolding scoped_def by fastforce+
  show "case bnd m f w of (r, w') \<Rightarrow>
           inside e0 (eng w') \<and> nextId (eng w) \<le> nextId (eng w') \<and>
           (\<forall>x. r = Inr x \<longrightarrow> (\<forall>i \<in> ids x. n \<le> i))"
  proof (cases r)
    case (Inl e)
    with mw s1 show ?thesis by (simp add: bnd_def)
  next
    case (Inr x)
    obtain r2 w2 where fw: "f x w1 = (r2, w2)" by (cases "f x w1")
    from s1(3) [OF Inr] have "scoped n ids (f x)" by (rule assms(2))
    with pre s1 fw have "inside e0 (eng w2) \<and> nextId (eng w1) \<le> nextId (eng w2) \<and>
           (\<forall>y. r2 = Inr y \<longrightarrow> (\<forall>i \<in> ids y. n \<le> i))"
      unfolding scoped_def by fastforce
    with mw Inr fw s1 show ?thesis by (auto simp: bnd_def)
  qed
qed

lemma scoped_track: "scoped n (\<lambda>h. {fst h}) (track t)"
  unfolding scoped_def
proof (intro allI impI)
  fix e0 and w :: world
  assume pre: "fresh e0 \<and> inside e0 (eng w) \<and> nextId e0 \<le> n \<and> n \<le> nextId (eng w)"
  then obtain s where s: "scopes (eng w) = s # scopes e0"
    "\<forall>i \<in> s. nextId e0 \<le> i \<and> i < nextId (eng w)"
    "live e0 \<subseteq> live (eng w)" "live (eng w) - live e0 \<subseteq> s"
    unfolding inside_def by blast
  from s(2) have "\<forall>i \<in> s. nextId e0 \<le> i \<and> i < Suc (nextId (eng w))" by auto
  moreover from s(3,4) have "live e0 \<subseteq> insert (nextId (eng w)) (live (eng w))"
    "insert (nextId (eng w)) (live (eng w)) - live e0 \<subseteq> insert (nextId (eng w)) s" by blast+
  ultimately show "case track t w of (r, w') \<Rightarrow>
           inside e0 (eng w') \<and> nextId (eng w) \<le> nextId (eng w') \<and>
           (\<forall>x. r = Inr x \<longrightarrow> (\<forall>i \<in> {fst x}. n \<le> i))"
    using s(1) pre unfolding track_def inside_def Let_def by simp
qed

lemma scoped_throw: "scoped n ids (throw e)"
  unfolding scoped_def throw_def by auto

lemma scoped_tf_op: "scoped n (\<lambda>h. {fst h}) (tf_op r)"
  unfolding tf_op_def by (cases r) (simp_all add: scoped_throw scoped_track)

lemma scoped_ret: "\<forall>i \<in> ids x. n \<le> i \<Longrightarrow> scoped n ids (ret x)"
  unfolding scoped_def ret_def by auto

lemma scoped_emit: "scoped n (\<lambda>_. {}) (emit ev)"
  unfolding scoped_def emit_def by auto

lemma scoped_raf: "scoped n (\<lambda>_. {}) requestAnimationFrame"
  unfolding scoped_def requestAnimationFrame_def by auto

lemma scoped_dispose:
  assumes "\<forall>i \<in> set xs. n \<le> i"
  shows "scoped n (\<lambda>_. {}) (dispose xs)"
  unfolding scoped_def
proof (intro allI impI)
  fix e0 and w :: world
  assume pre: "fresh e0 \<and> inside e0 (eng w) \<and> nextId e0 \<le> n \<and> n \<le> nextId (eng w)"
  then obtain s where s: "scopes (eng w) = s # scopes e0"
    "\<forall>i \<in> s. nextId e0 \<le> i \<and> i < nextId (eng w)"
    "live e0 \<subseteq> live (eng w)" "live (eng w) - live e0 \<subseteq> s"
    unfolding inside_def by blast
  have "live e0 \<inter> set xs = {}" using assms pre unfolding fresh_def by fastforce
  with s(3,4) have "live e0 \<subseteq> live (eng w) - set xs" "live (eng w) - set xs - live e0 \<subseteq> s"
    by blast+
  with s(1,2) pre show "case dispose xs w of (r, w') \<Rightarrow>
           inside e0 (eng w') \<and> nextId (eng w) \<le> nextId (eng w') \<and>
           (\<forall>x. r = Inr x \<longrightarrow> (\<forall>i \<in> {}. n \<le> i))"
    unfolding dispose_def inside_def by simp
qed

lemma inside_close:
  assumes "fresh e0" and "inside e0 e1" and "inside e1 e2"
  shows "inside e0 (close_scope K e2)"
proof -
  from assms(2) obtain s0 where s0: "scopes e1 = s0 # scopes e0"
    "\<forall>i \<in> s0. nextId e0 \<le> i \<and> i < nextId e1" "live e0 \<subseteq> live e1" "live e1 - live e0 \<subseteq> s0"
    "nextId e0 \<le> nextId e1"
    unfolding inside_def by blast
  from assms(3) obtain s2 where s2: "scopes e2 = s2 # scopes e1"
    "\<forall>i \<in> s2. nextId e1 \<le> i \<and> i < nextId e2" "live e1 \<subseteq> live e2" "live e2 - live e1 \<subseteq> s2"
    "nextId e1 \<le> nextId e2"
    unfolding inside_def by blast
  have sc: "scopes (close_scope K e2) = (s0 \<union> (s2 \<inter> K)) # scopes e0"
    using s2(1) s0(1) by (simp add: close_scope_def)
  have lv: "live (close_scope K e2) = live e2 - (s2 - K)"
    using s2(1) by (simp add: close_scope_def)
  have ni: "nextId (close_scope K e2) = nextId e2"
    using s2(1) by (simp add: close_scope_def)
  have a: "\<forall>i \<in> s0 \<union> (s2 \<inter> K). nextId e0 \<le> i \<and> i < nextId e2"
    using s0(2,5) s2(2,5) by fastforce
  have d: "live e0 \<inter> s2 = {}"
    using s2(2) s0(5) assms(1) unfolding fresh_def by fastforce
  have b: "live e0 \<subseteq> live e2 - (s2 - K)"
    using s0(3) s2(3) d by auto
  have c: "live e2 - (s2 - K) - live e0 \<subseteq> s0 \<union> (s2 \<inter> K)"
    using s0(4) s2(4) by auto
  show ?thesis unfolding inside_def using sc lv ni a b c s0(5) s2(5) by simp
qed

lemma scoped_tidy:
  assumes "\<And>k. scoped k ids m"
  shows "scoped n ids (tidy kept m)"
  unfolding scoped_def
proof (intro allI impI)
  fix e0 and w :: world
  assume pre: "fresh e0 \<and> inside e0 (eng w) \<and> nextId e0 \<le> n \<and> n \<le> nextId (eng w)"
  let ?e1 = "eng w"
  let ?w1 = "w\<lparr>eng := open_scope ?e1\<rparr>"
  have f1: "fresh ?e1" using pre unfolding fresh_def inside_def by fastforce
  have i1: "inside ?e1 (eng ?w1)" unfolding inside_def open_scope_def by simp
  obtain r w2 where mw: "m ?w1 = (r, w2)" by (cases "m ?w1")
  from assms [of "nextId ?e1"] f1 i1 mw
  have s: "inside ?e1 (eng w2)" "nextId ?e1 \<le> nextId (eng w2)"
    "\<And>x. r = Inr x \<Longrightarrow> \<forall>i \<in> ids x. nextId ?e1 \<le> i"
    unfolding scoped_def by (fastforce simp: open_scope_def)+
  have close: "inside e0 (close_scope K (eng w2))" for K
    using pre s(1) by (intro inside_close [of e0 ?e1]) simp_all
  have nid: "nextId (close_scope K (eng w2)) = nextId (eng w2)" for K
    unfolding close_scope_def by (simp split: list.splits)
  show "case tidy kept m w of (r, w') \<Rightarrow>
           inside e0 (eng w') \<and> nextId (eng w) \<le> nextId (eng w') \<and>
           (\<forall>x. r = Inr x \<longrightarrow> (\<forall>i \<in> ids x. n \<le> i))"
    using mw close nid s pre by (cases r) (auto simp: tidy_def)
qed

lemma closes_endScope: "closes n endScope"
  unfolding closes_def
proof (intro allI impI)
  fix e0 and w :: world
  assume pre: "fresh e0 \<and> inside e0 (eng w) \<and> nextId e0 \<le> n \<and> n \<le> nextId (eng w)"
  then obtain s where s: "scopes (eng w) = s # scopes e0"
    "\<forall>i \<in> s. nextId e0 \<le> i \<and> i < nextId (eng w)"
    "live e0 \<subseteq> live (eng w)" "live (eng w) - live e0 \<subseteq> s"
    unfolding inside_def by blast
  have "live e0 \<inter> s = {}" using s(2) pre unfolding fresh_def by fastforce
  with s(3,4) have l: "live (eng w) - s = live e0" by blast
  have sc: "(case scopes e0 of [] \<Rightarrow> [] | p # ps \<Rightarrow> (p \<union> s \<inter> {}) # ps) = scopes e0"
    by (cases "scopes e0") simp_all
  show "case endScope w of
           (Inr _, w') \<Rightarrow> live (eng w') = live e0 \<and> scopes (eng w') = scopes e0 \<and>
                          nextId e0 \<le> nextId (eng w')
         | (Inl _, w') \<Rightarrow> inside e0 (eng w')"
    using s(1) l sc pre by (simp add: endScope_def close_scope_def inside_def)
qed

lemma closes_bnd:
  assumes "scoped n ids m" and "\<And>x. \<forall>i \<in> ids x. n \<le> i \<Longrightarrow> closes n (f x)"
  shows "closes n (bnd m f)"
  unfolding closes_def
proof (intro allI impI)
  fix e0 and w :: world
  assume pre: "fresh e0 \<and> inside e0 (eng w) \<and> nextId e0 \<le> n \<and> n \<le> nextId (eng w)"
  obtain r w1 where mw: "m w = (r, w1)" by (cases "m w")
  from assms(1) pre mw have s1: "inside e0 (eng w1)" "nextId (eng w) \<le> nextId (eng w1)"
    "\<And>x. r = Inr x \<Longrightarrow> \<forall>i \<in> ids x. n \<le> i"
    unfolding scoped_def by fastforce+
  show "case bnd m f w of
           (Inr _, w') \<Rightarrow> live (eng w') = live e0 \<and> scopes (eng w') = scopes e0 \<and>
                          nextId e0 \<le> nextId (eng w')
         | (Inl _, w') \<Rightarrow> inside e0 (eng w')"
  proof (cases r)
    case (Inl e)
    with mw s1 show ?thesis by (simp add: bnd_def)
  next
    case (Inr x)
    from s1(3) [OF Inr] have "closes n (f x)" by (rule assms(2))
    with pre s1 have "case f x w1 of
           (Inr _, w') \<Rightarrow> live (eng w') = live e0 \<and> scopes (eng w') = scopes e0 \<and>
                          nextId e0 \<le> nextId (eng w')
         | (Inl _, w') \<Rightarrow> inside e0 (eng w')"
      unfolding closes_def by fastforce
    with mw Inr show ?thesis by (simp add: bnd_def)
  qed
qed


lemma scoped_preprocess: "scoped n (\<lambda>x. {fst (fst x)}) (preprocess src modelWidth modelHeight)"
  unfolding preprocess_def
  apply (rule scoped_tidy)
  apply (rule scoped_bnd [OF scoped_tf_op])
  apply (simp split: list.splits add: scoped_throw Let_def)
  apply (intro allI impI conjI)
  apply ((rule scoped_bnd [OF scoped_tf_op] scoped_bnd [OF scoped_track] | (rule scoped_ret, simp))+)
  done

lemma scoped_boxes_of: "scoped n (\<lambda>h. {fst h}) (boxes_of t)"
  unfolding boxes_of_def
  by (intro scoped_tidy scoped_bnd [OF scoped_tf_op] scoped_bnd [OF scoped_track] scoped_track)

lemma scoped_scores_of: "scoped n (\<lambda>h. {fst h}) (scores_of t)"
  unfolding scores_of_def
  by (intro scoped_tidy scoped_bnd [OF scoped_tf_op] scoped_track)

lemma scoped_landmarks_of: "scoped n (\<lambda>h. {fst h}) (landmarks_of t)"
  unfolding landmarks_of_def
  by (intro scoped_tidy scoped_bnd [OF scoped_tf_op] scoped_track)

lemma scoped_reshape: "scoped n (\<lambda>h. {fst h}) (reshape xs ds)"
  unfolding reshape_def
  by (intro scoped_tidy scoped_bnd [OF scoped_track] scoped_tf_op)

lemma bnd_startScope: "bnd startScope f w = f () (w\<lparr>eng := open_scope (eng w)\<rparr>)"
  by (simp add: bnd_def startScope_def)

lemma inside_open: "inside e (open_scope e)"
  by (simp add: inside_def open_scope_def)

lemma detect_scope:
  assumes fr: "fresh (eng w)" and cb: "\<And>k. scoped k (\<lambda>_. {}) cb"
  shows "case detect src mdl cb w of
           (Inr _, w') \<Rightarrow> live (eng w') = live (eng w) \<and> scopes (eng w') = scopes (eng w) \<and>
                          nextId (eng w) \<le> nextId (eng w')
         | (Inl _, w') \<Rightarrow> inside (eng w) (eng w')"
proof -
  let ?n = "nextId (eng w)"
  define body where "body =
     (bnd (case take 2 (drop 1 (inputShape mdl)) of
                [modelWidth, modelHeight] \<Rightarrow> preprocess src modelWidth modelHeight
              | _ \<Rightarrow> throw (OpError ''inputShape'')) (\<lambda>(input, xRatio, yRatio).
         bnd (case net mdl of
                None \<Rightarrow> throw (OpError ''TypeError'')
              | Some execute \<Rightarrow> tf_op (execute (snd input))) (\<lambda>res.
         bnd (tf_op (transpose021 (snd res))) (\<lambda>transRes.
         bnd (boxes_of (snd transRes)) (\<lambda>boxes.
         bnd (scores_of (snd transRes)) (\<lambda>scores.
         bnd (landmarks_of (snd transRes)) (\<lambda>landmarks.
         bnd (tf_op (nonMaxSuppression (snd boxes) (snd scores) 10 (round64 (45 / 100)) (round64 (3 / 10)))) (\<lambda>nms.
         bnd (tf_op (gather0 (snd boxes) (indices (snd nms)))) (\<lambda>boxes_g.
         bnd (tf_op (gather0 (snd scores) (indices (snd nms)))) (\<lambda>scores_g.
         bnd (tf_op (gather0 (snd landmarks) (indices (snd nms)))) (\<lambda>landmarks_g.
         bnd (reshape (vals (snd landmarks_g)) [3, 17]) (\<lambda>landmarks_data.
         bnd (emit (RenderBoxes (snd landmarks_data) (vals (snd boxes_g)) (vals (snd scores_g))
                      xRatio yRatio)) (\<lambda>_.
         bnd (dispose [fst res, fst transRes, fst boxes, fst scores, fst nms]) (\<lambda>_.
         bnd cb (\<lambda>_.
         endScope)))))))))))))))"
  have body: "closes ?n body"
    unfolding body_def
    apply (rule closes_bnd [where ids = "\<lambda>x. {fst (fst x)}"])
     apply (simp split: list.splits add: scoped_throw scoped_preprocess)
    apply (simp only: split_paired_all case_prod_conv)
    apply (rule closes_bnd [where ids = "\<lambda>h. {fst h}"])
     apply (simp split: option.splits add: scoped_throw scoped_tf_op)
    apply (rule closes_bnd [OF scoped_tf_op])
    apply (rule closes_bnd [OF scoped_boxes_of])
    apply (rule closes_bnd [OF scoped_scores_of])
    apply (rule closes_bnd [OF scoped_landmarks_of])
    apply (rule closes_bnd [OF scoped_tf_op])
    apply (rule closes_bnd [OF scoped_tf_op])
    apply (rule closes_bnd [OF scoped_tf_op])
    apply (rule closes_bnd [OF scoped_tf_op])
    apply (rule closes_bnd [OF scoped_reshape])
    apply (rule closes_bnd [OF scoped_emit])
    apply (rule closes_bnd [OF scoped_dispose])
     apply simp
    apply (rule closes_bnd [OF cb])
    apply (rule closes_endScope)
    done
  have d: "detect src mdl cb w = body (w\<lparr>eng := open_scope (eng w)\<rparr>)"
    unfolding body_def detect_def Let_def bnd_startScope by (rule refl)
  have "fresh (eng w) \<and> inside (eng w) (eng (w\<lparr>eng := open_scope (eng w)\<rparr>)) \<and>
        nextId (eng w) \<le> ?n \<and> ?n \<le> nextId (eng (w\<lparr>eng := open_scope (eng w)\<rparr>))"
    using fr by (simp add: inside_def open_scope_def)
  then have "case body (w\<lparr>eng := open_scope (eng w)\<rparr>) of
           (Inr _, w') \<Rightarrow> live (eng w') = live (eng w) \<and> scopes (eng w') = scopes (eng w) \<and>
                          nextId (eng w) \<le> nextId (eng w')
         | (Inl _, w') \<Rightarrow> inside (eng w) (eng w')"
    by (rule body [unfolded closes_def, rule_format])
  then show ?thesis by (simp only: d)
qed

subsection \<open>Running the program on an example\<close>

lemma upt_0_numeral: "[0..<numeral n] = 0 # [Suc 0..<numeral n]"
  by (simp add: upt_rec [of 0])

lemma upt_1_numeral: "[Suc 0..<numeral n] = (if (1::nat) < numeral n then 1 # [2..<numeral n] else [])"
  by (simp add: upt_rec [of "Suc 0"] numeral_2_eq_2)

lemmas run = detect_def reshape_def bnd_def startScope_def open_scope_def preprocess_def tidy_def tf_op_def
  track_def throw_def ret_def close_scope_def pad_def
  resizeBilinear_def bilinear_def tab3_def div_scalar_def expandDims0_def transpose021_def
  boxes_of_def scores_of_def landmarks_of_def slice_last_def binop_def concat2_def squeeze_def
  nonMaxSuppression_def endScope_def dispose_def emit_def upt_0_numeral upt_1_numeral
  insert_Diff_if

subsection \<open>The tensors of a detection call\<close>

text \<open>
  C9. \<^verbatim>\<open>detect\<close> opens an engine scope, disposes of five tensors by hand and ends the
  scope on its last line; the \<^verbatim>\<open>tf.tidy\<close> blocks inside it release their tensors
  also when they throw. \<^verbatim>\<open>detect\<close> itself has no \<^verbatim>\<open>try\<close>/\<^verbatim>\<open>finally\<close>: an exception
  skips what follows, \<^verbatim>\<open>endScope\<close> included. On a frame of one by two pixels and a
  raw output with a single detection, \<^verbatim>\<open>squeeze\<close> leaves boxes of shape \<open>[4]\<close>, which
  the suppression refuses. The call ends with that exception; the scope it opened is
  still on the stack, and the six tensors of the frame that the call had allocated
  (input 4, raw output 5, transposed output 6, boxes 18, scores 20, keypoints 22) are
  still allocated, where no tensor was allocated and no scope open before the call.
\<close>

theorem detect_leaks_when_suppression_throws:
  "fst (detect frame_ex model_single requestAnimationFrame w_init) = Inl (OpError ''nonMaxSuppression'') \<and>
   scopes (eng (snd (detect frame_ex model_single requestAnimationFrame w_init))) = [{4, 5, 6, 18, 20, 22}] \<and>
   live (eng (snd (detect frame_ex model_single requestAnimationFrame w_init))) = {4, 5, 6, 18, 20, 22} \<and>
   live (eng w_init) = {} \<and> scopes (eng w_init) = []"
proof -
  have "detect frame_ex model_single requestAnimationFrame w_init =
    (Inl (OpError ''nonMaxSuppression''),
     w_init\<lparr>eng := \<lparr>nextId = 23, live = {4, 5, 6, 18, 20, 22}, scopes = [{4, 5, 6, 18, 20, 22}]\<rparr>\<rparr>)"
    apply (simp add: run frame_ex_def w_init_def model_single_def raw_single_def)
    apply (auto simp: eval_nat_numeral)
    done
  then show ?thesis by (simp add: w_init_def)
qed

subsection \<open>What a detection does to the page\<close>

lemma quietD:
  assumes "quiet m" and "m w = (r, w')"
  shows "events w' = events w" "rafQueue w' = rafQueue w" "innerHTML w' = innerHTML w"
  using assms(1) [unfolded quiet_def, rule_format, of w] assms(2) by simp_all

lemma quiet_track: "quiet (track t)"
  unfolding quiet_def track_def Let_def by simp

lemma quiet_throw: "quiet (throw e)"
  unfolding quiet_def throw_def by simp

lemma quiet_ret: "quiet (ret x)"
  unfolding quiet_def ret_def by simp

lemma quiet_tf_op: "quiet (tf_op r)"
  by (cases r) (simp_all add: tf_op_def quiet_track quiet_throw)

lemma quiet_dispose: "quiet (dispose xs)"
  unfolding quiet_def dispose_def by simp

lemma quiet_startScope: "quiet startScope"
  unfolding quiet_def startScope_def by simp

lemma quiet_endScope: "quiet endScope"
  unfolding quiet_def endScope_def by simp

lemma quiet_bnd:
  assumes "quiet m" and "\<And>x. quiet (f x)"
  shows "quiet (bnd m f)"
  unfolding quiet_def
proof (intro allI)
  fix w :: world
  obtain r w1 where 1: "m w = (r, w1)" by (cases "m w")
  note a = quietD [OF assms(1) 1]
  show "case bnd m f w of (r, w') \<Rightarrow>
          events w' = events w \<and> rafQueue w' = rafQueue w \<and> innerHTML w' = innerHTML w"
  proof (cases r)
    case (Inl e)
    with 1 a show ?thesis by (simp add: bnd_def)
  next
    case (Inr x)
    obtain r2 w2 where 2: "f x w1 = (r2, w2)" by (cases "f x w1")
    from quietD [OF assms(2) 2] a 1 2 Inr show ?thesis by (simp add: bnd_def)
  qed
qed

lemma quiet_tidy:
  assumes "quiet m"
  shows "quiet (tidy kept m)"
  unfolding quiet_def
proof (intro allI)
  fix w :: world
  obtain r w1 where 1: "m (w\<lparr>eng := open_scope (eng w)\<rparr>) = (r, w1)"
    by (cases "m (w\<lparr>eng := open_scope (eng w)\<rparr>)")
  from quietD [OF assms 1] 1
  show "case tidy kept m w of (r, w') \<Rightarrow>
          events w' = events w \<and> rafQueue w' = rafQueue w \<and> innerHTML w' = innerHTML w"
    by (cases r) (simp_all add: tidy_def)
qed

lemma quiet_preprocess: "quiet (preprocess src modelWidth modelHeight)"
  unfolding preprocess_def
  apply (rule quiet_tidy)
  apply (rule quiet_bnd [OF quiet_tf_op])
  apply (simp split: list.splits add: quiet_throw Let_def)
  apply (intro allI impI conjI quiet_bnd quiet_tf_op quiet_track quiet_ret)
  done

lemma quiet_boxes_of: "quiet (boxes_of t)"
  unfolding boxes_of_def by (intro quiet_tidy quiet_bnd quiet_tf_op quiet_track)

lemma quiet_scores_of: "quiet (scores_of t)"
  unfolding scores_of_def by (intro quiet_tidy quiet_bnd quiet_tf_op quiet_track)

lemma quiet_landmarks_of: "quiet (landmarks_of t)"
  unfolding landmarks_of_def by (intro quiet_tidy quiet_bnd quiet_tf_op quiet_track)

lemma quiet_reshape: "quiet (reshape xs ds)"
  unfolding reshape_def by (intro quiet_tidy quiet_bnd quiet_tf_op quiet_track)

lemma calmD:
  assumes "calm m" and "m w = (r, w')"
  shows "innerHTML w' = innerHTML w" "\<exists>evs. events w' = events w @ evs \<and> (\<forall>ev \<in> set evs. \<not> is_set ev)"
  using assms(1) [unfolded calm_def, rule_format, of w] assms(2) by simp_all

lemma quiet_calm: "quiet m \<Longrightarrow> calm m"
  unfolding quiet_def calm_def by (auto split: prod.splits)

lemma calm_emit: "\<not> is_set ev \<Longrightarrow> calm (emit ev)"
  unfolding calm_def emit_def by simp

lemma calm_raf: "calm requestAnimationFrame"
  unfolding calm_def requestAnimationFrame_def by simp

lemma calm_bnd:
  assumes "calm m" and "\<And>x. calm (f x)"
  shows "calm (bnd m f)"
  unfolding calm_def
proof (intro allI)
  fix w :: world
  obtain r w1 where 1: "m w = (r, w1)" by (cases "m w")
  from calmD [OF assms(1) 1] obtain evs where a: "innerHTML w1 = innerHTML w"
    "events w1 = events w @ evs" "\<forall>ev \<in> set evs. \<not> is_set ev" by blast
  show "case bnd m f w of (r, w') \<Rightarrow> innerHTML w' = innerHTML w \<and>
          (\<exists>evs. events w' = events w @ evs \<and> (\<forall>ev \<in> set evs. \<not> is_set ev))"
  proof (cases r)
    case (Inl e)
    with 1 a show ?thesis by (simp add: bnd_def)
  next
    case (Inr x)
    obtain r2 w2 where 2: "f x w1 = (r2, w2)" by (cases "f x w1")
    from calmD [OF assms(2) 2] obtain evs2 where b: "innerHTML w2 = innerHTML w1"
      "events w2 = events w1 @ evs2" "\<forall>ev \<in> set evs2. \<not> is_set ev" by blast
    have "events w2 = events w @ (evs @ evs2)" "\<forall>ev \<in> set (evs @ evs2). \<not> is_set ev"
      using a b by auto
    then have "\<exists>evs. events w2 = events w @ evs \<and> (\<forall>ev \<in> set evs. \<not> is_set ev)" by blast
    with a b 1 2 Inr show ?thesis by (simp add: bnd_def)
  qed
qed

lemma calm_detect:
  assumes "calm cb"
  shows "calm (detect src mdl cb)"
  unfolding detect_def Let_def
  apply (rule calm_bnd [OF quiet_calm [OF quiet_startScope]])
  apply (rule calm_bnd)
   apply (simp split: list.splits add: quiet_calm quiet_throw quiet_preprocess)
  apply (simp only: split_paired_all case_prod_conv)
  apply (rule calm_bnd)
   apply (simp split: option.splits add: quiet_calm quiet_throw quiet_tf_op)
  apply (rule calm_bnd [OF quiet_calm [OF quiet_tf_op]])
  apply (rule calm_bnd [OF quiet_calm [OF quiet_boxes_of]])
  apply (rule calm_bnd [OF quiet_calm [OF quiet_scores_of]])
  apply (rule calm_bnd [OF quiet_calm [OF quiet_landmarks_of]])
  apply (rule calm_bnd [OF quiet_calm [OF quiet_tf_op]])
  apply (rule calm_bnd [OF quiet_calm [OF quiet_tf_op]])
  apply (rule calm_bnd [OF quiet_calm [OF quiet_tf_op]])
  apply (rule calm_bnd [OF quiet_calm [OF quiet_tf_op]])
  apply (rule calm_bnd [OF quiet_calm [OF quiet_reshape]])
  apply (rule calm_bnd [OF calm_emit], simp)
  apply (rule calm_bnd [OF quiet_calm [OF quiet_dispose]])
  apply (rule calm_bnd [OF assms])
  apply (rule quiet_calm [OF quiet_endScope])
  done

subsection \<open>Suppression and gathering\<close>

lemma select_subset: "set (select b t k pool) \<subseteq> set pool"
  by (induction b t k pool rule: select.induct) auto

lemma select_length: "length (select b t k pool) \<le> k"
  by (induction b t k pool rule: select.induct) auto

lemma candidates_set: "set (candidates s th) = {i. i < length s \<and> \<not> js_lt (s ! i) th}"
  by (auto simp: candidates_def)

lemma place_set: "set (place s i pool) = insert i (set pool)"
  by (induction pool) auto

lemma by_score_set: "set (by_score s idx) = set idx"
  unfolding by_score_def by (induction idx) (simp_all add: place_set)

lemma indices_map_real: "indices \<lparr>shape = sh, vals = idx\<rparr> = idx"
  by (simp add: indices_def)

lemma nonMaxSuppression_Inr:
  assumes "nonMaxSuppression bx sc k t th = Inr r"
  obtains n where "shape bx = [n, 4]" "shape sc = [n]"
    "indices r = select bx t k (by_score (vals sc) (candidates (vals sc) th))"
  using assms unfolding nonMaxSuppression_def
  by (auto split: list.splits if_splits simp: Let_def indices_map_real)

lemma nonMaxSuppression_ok:
  assumes "shape bx = [n, 4]" "shape sc = [n]"
  shows "\<exists>r. nonMaxSuppression bx sc k t th = Inr r \<and>
             indices r = select bx t k (by_score (vals sc) (candidates (vals sc) th))"
  using assms by (simp add: nonMaxSuppression_def Let_def indices_map_real)

lemma selected_candidates:
  "set (select bx t k (by_score s (candidates s th))) \<subseteq> {i. i < length s \<and> \<not> js_lt (s ! i) th}"
  using select_subset [of bx t k "by_score s (candidates s th)"]
  by (simp add: by_score_set candidates_set)

lemma gather0_Inr:
  assumes "gather0 t idx = Inr g"
  obtains n rest where "shape t = n # rest" "\<forall>i \<in> set idx. i < n" "shape g = length idx # rest"
    "vals g = concat (map (\<lambda>i. take (prod_list rest) (drop (i * prod_list rest) (vals t))) idx)"
  using assms unfolding gather0_def by (auto split: list.splits if_splits)

lemma gather0_ok:
  assumes "shape t = n # rest" "\<forall>i \<in> set idx. i < n"
  shows "gather0 t idx = Inr \<lparr>shape = length idx # rest,
           vals = concat (map (\<lambda>i. take (prod_list rest) (drop (i * prod_list rest) (vals t))) idx)\<rparr>"
  using assms by (simp add: gather0_def)

lemma concat_uniform_length: "\<forall>x \<in> set xss. length x = P \<Longrightarrow> length (concat xss) = length xss * P"
  by (induction xss) auto

lemma concat_uniform_nth:
  "\<forall>x \<in> set xss. length x = P \<Longrightarrow> d < length xss \<Longrightarrow> j < P \<Longrightarrow>
     concat xss ! (d * P + j) = xss ! d ! j"
proof (induction xss arbitrary: d)
  case Nil
  then show ?case by simp
next
  case (Cons x xss)
  show ?case
  proof (cases d)
    case 0
    with Cons.prems show ?thesis by (simp add: nth_append)
  next
    case (Suc d')
    have "(x @ concat xss) ! (P + (d' * P + j)) = concat xss ! (d' * P + j)"
      using Cons.prems(1) by (simp add: nth_append)
    also have "\<dots> = xss ! d' ! j" using Cons.prems Suc by (intro Cons.IH) auto
    finally show ?thesis using Suc by (simp add: add.assoc)
  qed
qed

lemma gathered_rows:
  assumes len: "length vs = n * P" and idx: "\<forall>i \<in> set idx. i < n"
  shows "length (concat (map (\<lambda>i. take P (drop (i * P) vs)) idx)) = length idx * P"
    and "d < length idx \<Longrightarrow> j < P \<Longrightarrow>
           concat (map (\<lambda>i. take P (drop (i * P) vs)) idx) ! (d * P + j) = vs ! (idx ! d * P + j)"
proof -
  have chunk: "length (take P (drop (i * P) vs)) = P" if "i < n" for i
  proof -
    have "Suc i * P \<le> n * P" using that by (intro mult_le_mono1) simp
    then show ?thesis using len by simp
  qed
  have u: "\<forall>x \<in> set (map (\<lambda>i. take P (drop (i * P) vs)) idx). length x = P"
    using chunk idx by auto
  from concat_uniform_length [OF u]
  show "length (concat (map (\<lambda>i. take P (drop (i * P) vs)) idx)) = length idx * P" by simp
  assume d: "d < length idx" and j: "j < P"
  from concat_uniform_nth [OF u, of d j] d j
  have "concat (map (\<lambda>i. take P (drop (i * P) vs)) idx) ! (d * P + j)
          = take P (drop (idx ! d * P) vs) ! j" by simp
  also have "\<dots> = vs ! (idx ! d * P + j)"
  proof -
    have "idx ! d < n" using idx d by simp
    then have "idx ! d * P \<le> n * P" by (intro mult_le_mono1) simp
    then have "idx ! d * P \<le> length vs" by (simp only: len)
    then show ?thesis using j by (simp add: nth_drop)
  qed
  finally show "concat (map (\<lambda>i. take P (drop (i * P) vs)) idx) ! (d * P + j) = vs ! (idx ! d * P + j)" .
qed

subsection \<open>A detection call that returns\<close>

lemma gives_D: "gives (length (scopes (eng w))) n' m P \<Longrightarrow> m w = (Inr x, w') \<Longrightarrow> P x"
  unfolding gives_def by fastforce

lemma scores_of_shape:
  assumes "scores_of t w = (Inr h, w')"
  obtains b n a where "shape t = [b, n, a]" "5 \<le> a"
proof -
  from assms obtain s where s: "slice_last t 4 1 = Inr s"
    unfolding scores_of_def tidy_def bnd_def tf_op_def throw_def
    by (cases "slice_last t 4 1") (auto split: prod.splits sum.splits)
  then show thesis using that
    unfolding slice_last_def by (auto split: list.splits if_splits simp: Let_def)
qed

lemma emit_Inr:
  assumes "emit ev w = (r, w')"
  shows "events w' = events w @ [ev]" "rafQueue w' = rafQueue w" "innerHTML w' = innerHTML w"
  using assms by (auto simp: emit_def)

lemma detect_run:
  assumes "detect src mdl cb w = (Inr u, w')"
  obtains modelWidth modelHeight input xRatio yRatio execute raw tr b n a bx sc lm nms bg sg lg kp
      i w0 w1 w14 w15
  where "take 2 (drop 1 (inputShape mdl)) = [modelWidth, modelHeight]"
    and "preprocess src modelWidth modelHeight w0 = (Inr ((i, input), xRatio, yRatio), w1)"
    and "net mdl = Some execute"
    and "execute input = Inr raw"
    and "transpose021 raw = Inr tr"
    and "shape tr = [b, n, a]"
    and "5 \<le> a"
    and "shape bx = filter (\<lambda>x. x \<noteq> 1) [b, n, 4]"
    and "\<forall>j < b * n.
           box_at bx j =
             (f32_sub (vals tr ! (j * a + 1)) (f32_div (vals tr ! (j * a + 3)) (Num 2)),
              f32_sub (vals tr ! (j * a)) (f32_div (vals tr ! (j * a + 2)) (Num 2)),
              f32_add (f32_sub (vals tr ! (j * a + 1)) (f32_div (vals tr ! (j * a + 3)) (Num 2)))
                (vals tr ! (j * a + 3)),
              f32_add (f32_sub (vals tr ! (j * a)) (f32_div (vals tr ! (j * a + 2)) (Num 2)))
                (vals tr ! (j * a + 2)))"
    and "sc = \<lparr>shape = filter (\<lambda>x. x \<noteq> 1) [b, n, 1],
               vals = map (\<lambda>j. vals tr ! (j * a + 4)) [0..<b * n]\<rparr>"
    and "lm = \<lparr>shape = filter (\<lambda>x. x \<noteq> 1) [b, n, a - 5],
               vals = tab3 b n (a - 5) (\<lambda>i j l. vals tr ! ((i * n + j) * a + 5 + l))\<rparr>"
    and "nonMaxSuppression bx sc 10 (round64 (45 / 100)) (round64 (3 / 10)) = Inr nms"
    and "gather0 bx (indices nms) = Inr bg"
    and "gather0 sc (indices nms) = Inr sg"
    and "gather0 lm (indices nms) = Inr lg"
    and "reshape_infer (vals lg) [3, 17] = Inr kp"
    and "events w14 = events w @ [RenderBoxes kp (vals bg) (vals sg) xRatio yRatio]"
    and "rafQueue w14 = rafQueue w"
    and "innerHTML w14 = innerHTML w"
    and "cb w14 = (Inr (), w15)"
    and "events w' = events w15"
    and "rafQueue w' = rafQueue w15"
    and "innerHTML w' = innerHTML w15"
proof (rule detect_Inr [OF assms])
  fix modelWidth modelHeight :: nat and input :: "real handle" and xRatio yRatio :: jsnum
    and execute :: "real tensor \<Rightarrow> error + jsnum tensor" and nms :: "nat handle"
    and res transRes boxes scores landmarks boxes_g scores_g landmarks_g landmarks_data :: "jsnum handle"
    and w0 w1 w2 w3 w4 w5 w6 w7 w8 w9 w10 w12 w13 w14 w15 :: world
  assume dims: "take 2 (drop 1 (inputShape mdl)) = [modelWidth, modelHeight]"
    and s0: "startScope w = (Inr (), w0)"
    and s1: "preprocess src modelWidth modelHeight w0 = (Inr (input, xRatio, yRatio), w1)"
    and net: "net mdl = Some execute"
    and s2: "tf_op (execute (snd input)) w1 = (Inr res, w2)"
    and s3: "tf_op (transpose021 (snd res)) w2 = (Inr transRes, w3)"
    and s4: "boxes_of (snd transRes) w3 = (Inr boxes, w4)"
    and s5: "scores_of (snd transRes) w4 = (Inr scores, w5)"
    and s6: "landmarks_of (snd transRes) w5 = (Inr landmarks, w6)"
    and s7: "tf_op (nonMaxSuppression (snd boxes) (snd scores) 10 (round64 (45 / 100)) (round64 (3 / 10))) w6 = (Inr nms, w7)"
    and s8: "tf_op (gather0 (snd boxes) (indices (snd nms))) w7 = (Inr boxes_g, w8)"
    and s9: "tf_op (gather0 (snd scores) (indices (snd nms))) w8 = (Inr scores_g, w9)"
    and s10: "tf_op (gather0 (snd landmarks) (indices (snd nms))) w9 = (Inr landmarks_g, w10)"
    and s12: "reshape (vals (snd landmarks_g)) [3, 17] w10 = (Inr landmarks_data, w12)"
    and s13: "emit (RenderBoxes (snd landmarks_data) (vals (snd boxes_g)) (vals (snd scores_g))
                 xRatio yRatio) w12 = (Inr (), w13)"
    and s14: "dispose [fst res, fst transRes, fst boxes, fst scores, fst nms] w13 = (Inr (), w14)"
    and s15: "cb w14 = (Inr (), w15)"
    and s16: "endScope w15 = (Inr u, w')"
  note q = quietD [OF quiet_startScope s0] quietD [OF quiet_preprocess s1]
    quietD [OF quiet_tf_op s2] quietD [OF quiet_tf_op s3] quietD [OF quiet_boxes_of s4]
    quietD [OF quiet_scores_of s5] quietD [OF quiet_landmarks_of s6] quietD [OF quiet_tf_op s7]
    quietD [OF quiet_tf_op s8] quietD [OF quiet_tf_op s9] quietD [OF quiet_tf_op s10]
    quietD [OF quiet_reshape s12] emit_Inr [OF s13]
    quietD [OF quiet_dispose s14]
  have page: "events w14 = events w @ [RenderBoxes (snd landmarks_data) (vals (snd boxes_g))
                 (vals (snd scores_g)) xRatio yRatio]"
    "rafQueue w14 = rafQueue w" "innerHTML w14 = innerHTML w"
    by (simp_all only: q)
  note fin = quietD [OF quiet_endScope s16]
  from s2 have raw: "execute (snd input) = Inr (snd res)"
    by (auto elim!: tf_op_Inr dest: track_result)
  from s1 have pre: "preprocess src modelWidth modelHeight w0
                       = (Inr ((fst input, snd input), xRatio, yRatio), w1)" by simp
  from s3 have tr: "transpose021 (snd res) = Inr (snd transRes)"
    by (auto elim!: tf_op_Inr dest: track_result)
  from s5 obtain b n a where sh: "shape (snd transRes) = [b, n, a]" and a: "5 \<le> a"
    by (rule scores_of_shape)
  from a have a4: "4 \<le> a" by simp
  note B = gives_D [OF boxes_of_gives [OF sh a4] s4]
  note S = gives_D [OF scores_of_gives [OF sh a] s5]
  note L = gives_D [OF landmarks_of_gives [OF sh a] s6]
  from s7 have N: "nonMaxSuppression (snd boxes) (snd scores) 10 (round64 (45 / 100)) (round64 (3 / 10)) = Inr (snd nms)"
    by (auto elim!: tf_op_Inr dest: track_result)
  from s8 have G1: "gather0 (snd boxes) (indices (snd nms)) = Inr (snd boxes_g)"
    by (auto elim!: tf_op_Inr dest: track_result)
  from s9 have G2: "gather0 (snd scores) (indices (snd nms)) = Inr (snd scores_g)"
    by (auto elim!: tf_op_Inr dest: track_result)
  from s10 have G3: "gather0 (snd landmarks) (indices (snd nms)) = Inr (snd landmarks_g)"
    by (auto elim!: tf_op_Inr dest: track_result)
  from s12 have R: "reshape_infer (vals (snd landmarks_g)) [3, 17] = Inr (snd landmarks_data)"
    by (rule reshape_Inr)
  from dims pre net raw tr sh a B [THEN conjunct1] B [THEN conjunct2, THEN conjunct2] S L N G1 G2 G3 R
    page s15 fin
  show thesis by (rule that)
qed

lemma tab3_rows:
  assumes "i < b * n" "l < c"
  shows "tab3 b n c (\<lambda>i j l. g ((i * n + j) * a + k + l)) ! (i * c + l) = g (i * a + k + l)"
proof -
  have "i * c + l < Suc i * c" using assms(2) by simp
  also have "\<dots> \<le> b * n * c" using assms(1) by (intro mult_le_mono1) simp
  finally have lt: "i * c + l < b * n * c" .
  have d: "(i * c + l) div c = i" "(i * c + l) mod c = l" using assms(2) by simp_all
  have "(i * c + l) div (n * c) = (i * c + l) div (c * n)" by (simp only: mult.commute)
  also have "\<dots> = (i * c + l) div c div n" by (rule div_mult2_eq)
  finally have e: "(i * c + l) div (n * c) = i div n" by (simp only: d)
  have "i div n * n + i mod n = i" by simp
  then show ?thesis by (simp only: tab3_nth [OF lt] d e)
qed

lemma squeezed_rows:
  assumes "filter (\<lambda>x. x \<noteq> 1) [b, n, 4] = [m, 4::nat]"
  shows "m = b * n" "filter (\<lambda>x. x \<noteq> 1) [b, n, 1] = [m]"
    "\<exists>rest. filter (\<lambda>x. x \<noteq> 1) [b, n, c] = m # rest \<and> prod_list rest = c"
  using assms by (auto split: if_splits)

lemma detect_rendered:
  assumes run: "detect src mdl cb w = (Inr u, w')" and cb: "\<forall>v. events (snd (cb v)) = events v"
  obtains xRatio yRatio execute input raw tr b n a bx sc nms bg kp
  where "net mdl = Some execute"
    and "execute input = Inr raw"
    and "transpose021 raw = Inr tr"
    and "shape tr = [b, n, a]"
    and "5 \<le> a"
    and "shape bx = [b * n, 4]"
    and "shape sc = [b * n]"
    and "vals sc = map (\<lambda>j. vals tr ! (j * a + 4)) [0..<b * n]"
    and "nonMaxSuppression bx sc 10 (round64 (45 / 100)) (round64 (3 / 10)) = Inr nms"
    and "indices nms = select bx (round64 (45 / 100)) 10
             (by_score (vals sc) (candidates (vals sc) (round64 (3 / 10))))"
    and "\<forall>i \<in> set (indices nms). i < b * n"
    and "gather0 bx (indices nms) = Inr bg"
    and "reshape_infer (vals kp) [3, 17] = Inr kp"
    and "length (vals kp) = length (indices nms) * (a - 5)"
    and "\<forall>d < length (indices nms). \<forall>j < a - 5.
           vals kp ! (d * (a - 5) + j) = vals tr ! (indices nms ! d * a + 5 + j)"
    and "events w' = events w @ [RenderBoxes kp (vals bg) (map (\<lambda>i. vals sc ! i) (indices nms))
                                   xRatio yRatio]"
proof (rule detect_run [OF run])
  fix modelWidth modelHeight :: nat and input :: "real tensor" and xRatio yRatio :: jsnum
    and execute :: "real tensor \<Rightarrow> error + jsnum tensor" and raw tr :: "jsnum tensor"
    and b n a :: nat and nms :: "nat tensor"
    and bx sc lm bg sg lg kp :: "jsnum tensor" and w14 w15 :: world
  let ?idx = "indices nms"
  assume net: "net mdl = Some execute"
    and raw: "execute input = Inr raw"
    and tr: "transpose021 raw = Inr tr"
    and sh: "shape tr = [b, n, a]"
    and a: "5 \<le> a"
    and B: "shape bx = filter (\<lambda>x. x \<noteq> 1) [b, n, 4]"
    and S: "sc = \<lparr>shape = filter (\<lambda>x. x \<noteq> 1) [b, n, 1],
               vals = map (\<lambda>j. vals tr ! (j * a + 4)) [0..<b * n]\<rparr>"
    and L: "lm = \<lparr>shape = filter (\<lambda>x. x \<noteq> 1) [b, n, a - 5],
               vals = tab3 b n (a - 5) (\<lambda>i j l. vals tr ! ((i * n + j) * a + 5 + l))\<rparr>"
    and N: "nonMaxSuppression bx sc 10 (round64 (45 / 100)) (round64 (3 / 10)) = Inr nms"
    and G1: "gather0 bx ?idx = Inr bg"
    and G2: "gather0 sc ?idx = Inr sg"
    and G3: "gather0 lm ?idx = Inr lg"
    and R: "reshape_infer (vals lg) [3, 17] = Inr kp"
    and ev: "events w14 = events w @ [RenderBoxes kp (vals bg) (vals sg) xRatio yRatio]"
    and c: "cb w14 = (Inr (), w15)"
    and fin: "events w' = events w15"
  from N obtain m where bxs: "shape bx = [m, 4]"
    and idx: "?idx = select bx (round64 (45 / 100)) 10
             (by_score (vals sc) (candidates (vals sc) (round64 (3 / 10))))"
    by (rule nonMaxSuppression_Inr)
  from bxs B have f: "filter (\<lambda>x. x \<noteq> 1) [b, n, 4] = [m, 4]" by simp
  note m = squeezed_rows(1) [OF f]
  have scs: "shape sc = [m]" using squeezed_rows(2) [OF f] by (simp add: S)
  have vsc: "vals sc = map (\<lambda>j. vals tr ! (j * a + 4)) [0..<b * n]" by (simp add: S)
  have lsc: "length (vals sc) = m" by (simp add: vsc m)
  have bound: "\<forall>i \<in> set ?idx. i < m"
    using selected_candidates [of bx "round64 (45 / 100)" 10 "vals sc" "round64 (3 / 10)"] idx lsc by auto
  \<comment> \<open>the scores that are rendered\<close>
  from G2 scs have vsg: "vals sg = concat (map (\<lambda>i. take 1 (drop (i * 1) (vals sc))) ?idx)"
    by (auto elim!: gather0_Inr)
  have lsc1: "length (vals sc) = m * 1" using lsc by simp
  have sg: "vals sg = map (\<lambda>i. vals sc ! i) ?idx"
  proof (rule nth_equalityI)
    show "length (vals sg) = length (map (\<lambda>i. vals sc ! i) ?idx)"
      using gathered_rows(1) [OF lsc1 bound] by (simp add: vsg)
    fix d assume "d < length (vals sg)"
    then have d: "d < length ?idx" using gathered_rows(1) [OF lsc1 bound] by (simp add: vsg)
    from gathered_rows(2) [OF lsc1 bound d, of 0] d
    show "vals sg ! d = map (\<lambda>i. vals sc ! i) ?idx ! d" by (simp add: vsg)
  qed
  \<comment> \<open>the keypoints that are rendered\<close>
  from squeezed_rows(3) [OF f, of "a - 5"] obtain rest where
    rest: "filter (\<lambda>x. x \<noteq> 1) [b, n, a - 5] = m # rest" "prod_list rest = a - 5" by blast
  have shl: "shape lm = m # rest" unfolding L by (simp only: tensor.select_convs rest(1))
  from G3 shl rest(2)
  have vlg: "vals lg = concat (map (\<lambda>i. take (a - 5) (drop (i * (a - 5)) (vals lm))) ?idx)"
    by (auto elim!: gather0_Inr)
  have llm: "length (vals lm) = m * (a - 5)" by (simp add: L m)
  from R have vkp: "vals kp = vals lg"
    by (auto simp: reshape_infer_def split: if_splits)
  with R have R': "reshape_infer (vals kp) [3, 17] = Inr kp" by simp
  have lkp: "length (vals kp) = length ?idx * (a - 5)"
    using gathered_rows(1) [OF llm bound] by (simp add: vkp vlg)
  have nkp: "\<forall>d < length ?idx. \<forall>j < a - 5.
               vals kp ! (d * (a - 5) + j) = vals tr ! (?idx ! d * a + 5 + j)"
  proof (intro allI impI)
    fix d j assume d: "d < length ?idx" and j: "j < a - 5"
    from bound d have i: "?idx ! d < b * n" by (simp add: m)
    have "vals kp ! (d * (a - 5) + j) = vals lm ! (?idx ! d * (a - 5) + j)"
      using gathered_rows(2) [OF llm bound d j] by (simp add: vkp vlg)
    also have "\<dots> = vals tr ! (?idx ! d * a + 5 + j)"
      unfolding L using tab3_rows [OF i j, of "\<lambda>x. vals tr ! x" a 5] by simp
    finally show "vals kp ! (d * (a - 5) + j) = vals tr ! (?idx ! d * a + 5 + j)" .
  qed
  have "events w15 = events w14" using cb [rule_format, of w14] c by simp
  with ev fin sg have page: "events w' = events w @ [RenderBoxes kp (vals bg)
      (map (\<lambda>i. vals sc ! i) ?idx) xRatio yRatio]" by simp
  from net raw tr sh a bxs [unfolded m] scs [unfolded m] vsc N idx bound [unfolded m] G1 R' lkp nkp page
  show thesis by (rule that)
qed

lemma select_Nil: "select b t k [] = []"
  by (cases k) simp_all

lemma select_numeral:
  "select b t (numeral k) (i # pool) =
     i # select b t (pred_numeral k)
           (filter (\<lambda>j. \<not> js_lt t (iou (box_at b i) (box_at b j))) pool)"
  by (simp add: numeral_eq_Suc)

lemma round64_3_10: "round64 (3 / 10) = Num (5404319552844595 / 2 ^ 54)"
proof -
  have "fl64 (3 / 10) = of_int (rne (3 / 10 / 2 powi (- 2 - 52))) * 2 powi (- 2 - 52)"
    by (rule fl64_normal) (simp_all add: power_int_minus)
  also have "rne (3 / 10 / 2 powi (- 2 - 52)) = 5404319552844595"
    by (simp add: rne_def power_int_minus)
  finally have "fl64 (3 / 10) = 5404319552844595 / 2 ^ 54" by (simp add: power_int_minus)
  then show ?thesis by (simp add: round64_def)
qed

lemmas run_nms = gather0_def reshape_infer_def indices_def candidates_def by_score_def iou_def
  box_at_def requestAnimationFrame_def select_Nil select_numeral round64_3_10 js_lt_def
  f32_sub_def div_scalar32_def

lemma detect_ex_run:
  "detect frame_ex model_ex requestAnimationFrame w_init =
     (Inr (), w_init\<lparr>eng := \<lparr>nextId = 29, live = {}, scopes = []\<rparr>,
        events := [RenderBoxes \<lparr>shape = [1, 3, 17], vals = map (\<lambda>p. Num (2 * real p)) [0..<51]\<rparr>
                     [Num 0, Num 0, Num 2, Num 2] [Num (7 / 8)] (Num 1) (Num 2)],
        rafQueue := 1\<rparr>)"
  by (simp add: run run_nms frame_ex_def w_init_def model_ex_def raw_ex_def)

subsection \<open>The tensor handed to the model\<close>




end
